theory Spec2Isabelle
  imports Main "HOL-Library.Signed_Division"
begin

section \<open>MFMA 16x16x4 on CPU threads: the per-lane code\<close>

text \<open>
  The program is \<^verbatim>\<open>mfma_on_cpu_threads.cc\<close>. Its scalars are C++ \<^verbatim>\<open>float\<close>s. The
  model is polymorphic in the scalar type and uses only the syntactic operations
  \<open>+\<close> and \<open>*\<close> of the classes \<open>plus\<close> and \<open>times\<close>, which carry no algebraic law:
  no theorem about the program relies on associativity, commutativity or a unit,
  so each one holds for IEEE binary32 addition and multiplication as for any other
  interpretation. The order in which the code adds is therefore kept as written.
  Concrete runs are evaluated on \<open>int\<close>.

  Indices are C++ \<^verbatim>\<open>int\<close>s. They are modelled as \<open>int\<close>; every index the program
  forms is below 128 in absolute value, so no arithmetic wraps. C++ division and
  remainder truncate towards zero, which is \<open>sdiv\<close> and \<open>smod\<close>.
\<close>

subsection \<open>Constants, errors and arrays\<close>

definition threads_per_subgroup :: int where
  "threads_per_subgroup = 64"

text \<open>
  Two things can go wrong in the source: the \<^verbatim>\<open>assert\<close> of line 31 aborts, or an
  array is indexed outside its bounds (undefined behaviour in C++, a definite
  error value here so that it cannot pass unnoticed).
\<close>

datatype error = Assertion_failed | Out_of_bounds

definition load :: "'a list \<Rightarrow> int \<Rightarrow> error + 'a" where
  "load xs i = (if 0 \<le> i \<and> i < int (length xs) then Inr (xs ! nat i) else Inl Out_of_bounds)"

definition store :: "'a list \<Rightarrow> int \<Rightarrow> 'a \<Rightarrow> error + 'a list" where
  "store xs i v = (if 0 \<le> i \<and> i < int (length xs) then Inr (xs[nat i := v]) else Inl Out_of_bounds)"

text \<open>\<^verbatim>\<open>floatx4_t\<close>: a vector of exactly four scalars, indexed by 0..3.\<close>

datatype 'a floatx4 = Floatx4 'a 'a 'a 'a

fun vget :: "'a floatx4 \<Rightarrow> int \<Rightarrow> error + 'a" where
  "vget (Floatx4 x0 x1 x2 x3) p =
     (if p = 0 then Inr x0 else if p = 1 then Inr x1
      else if p = 2 then Inr x2 else if p = 3 then Inr x3
      else Inl Out_of_bounds)"

fun vset :: "'a floatx4 \<Rightarrow> int \<Rightarrow> 'a \<Rightarrow> error + 'a floatx4" where
  "vset (Floatx4 x0 x1 x2 x3) p v =
     (if p = 0 then Inr (Floatx4 v x1 x2 x3) else if p = 1 then Inr (Floatx4 x0 v x2 x3)
      else if p = 2 then Inr (Floatx4 x0 x1 v x3) else if p = 3 then Inr (Floatx4 x0 x1 x2 v)
      else Inl Out_of_bounds)"

subsection \<open>\<^verbatim>\<open>cpu_mfma_f32_16x16x4f32\<close>, before the barrier (lines 31 to 39)\<close>

text \<open>Line 31: \<^verbatim>\<open>assert(tid < threads_per_subgroup && "...")\<close>. The string literal is true.\<close>

definition mfma_assert :: "int \<Rightarrow> error + unit" where
  "mfma_assert tid = (if tid < threads_per_subgroup then Inr () else Inl Assertion_failed)"

text \<open>Lines 38 and 39: \<^verbatim>\<open>a_tile[tid] = a; b_tile[tid] = b;\<close> on the two static tiles.\<close>

definition mfma_publish ::
  "int \<Rightarrow> 'a \<Rightarrow> 'a \<Rightarrow> 'a list \<times> 'a list \<Rightarrow> error + ('a list \<times> 'a list)" where
  "mfma_publish tid a b tiles =
     (case mfma_assert tid of
        Inl e \<Rightarrow> Inl e
      | Inr _ \<Rightarrow>
          (case store (fst tiles) tid a of
             Inl e \<Rightarrow> Inl e
           | Inr a_tile' \<Rightarrow>
               (case store (snd tiles) tid b of
                  Inl e \<Rightarrow> Inl e
                | Inr b_tile' \<Rightarrow> Inr (a_tile', b_tile'))))"

subsection \<open>\<^verbatim>\<open>cpu_mfma_f32_16x16x4f32\<close>, after the barrier (lines 44 to 51)\<close>

definition lane_m :: "int \<Rightarrow> int" where
  "lane_m tid = 4 * (tid sdiv 16)"

definition lane_n :: "int \<Rightarrow> int" where
  "lane_n tid = tid smod 16"

definition lane_mn :: "int \<Rightarrow> int \<times> int" where
  "lane_mn tid = (lane_m tid, lane_n tid)"

text \<open>The body of the loops, line 48: \<^verbatim>\<open>c[p] += a_tile[16 * k + m + p] * b_tile[16 * k + n];\<close>\<close>

definition loop_body ::
  "'a::{plus,times} list \<Rightarrow> 'a list \<Rightarrow> int \<Rightarrow> int \<Rightarrow> int \<Rightarrow> int \<Rightarrow> 'a floatx4 \<Rightarrow> error + 'a floatx4"
where
  "loop_body a_tile b_tile m n k p c =
     (case load a_tile (16 * k + m + p) of
        Inl e \<Rightarrow> Inl e
      | Inr x \<Rightarrow>
          (case load b_tile (16 * k + n) of
             Inl e \<Rightarrow> Inl e
           | Inr y \<Rightarrow>
               (case vget c p of
                  Inl e \<Rightarrow> Inl e
                | Inr v \<Rightarrow> vset c p (v + x * y))))"

text \<open>The inner loop, \<^verbatim>\<open>for (int p = 0; p < 4; ++p) { ... }\<close>, from the test on.\<close>

function loop_p ::
  "'a::{plus,times} list \<Rightarrow> 'a list \<Rightarrow> int \<Rightarrow> int \<Rightarrow> int \<Rightarrow> int \<Rightarrow> 'a floatx4 \<Rightarrow> error + 'a floatx4"
where
  "loop_p a_tile b_tile m n k p c =
     (if p < 4 then
        (case loop_body a_tile b_tile m n k p c of
           Inl e \<Rightarrow> Inl e
         | Inr c' \<Rightarrow> loop_p a_tile b_tile m n k (p + 1) c')
      else Inr c)"
  by pat_completeness auto
termination
  by (relation "measure (\<lambda>(a_tile, b_tile, m, n, k, p, c). nat (4 - p))") auto

text \<open>The outer loop, \<^verbatim>\<open>for (int k = 0; k < 4; ++k) { ... }\<close>, from the test on.\<close>

function loop_k ::
  "'a::{plus,times} list \<Rightarrow> 'a list \<Rightarrow> int \<Rightarrow> int \<Rightarrow> int \<Rightarrow> 'a floatx4 \<Rightarrow> error + 'a floatx4"
where
  "loop_k a_tile b_tile m n k c =
     (if k < 4 then
        (case loop_p a_tile b_tile m n k 0 c of
           Inl e \<Rightarrow> Inl e
         | Inr c' \<Rightarrow> loop_k a_tile b_tile m n (k + 1) c')
      else Inr c)"
  by pat_completeness auto
termination
  by (relation "measure (\<lambda>(a_tile, b_tile, m, n, k, c). nat (4 - k))") auto

declare loop_p.simps [simp del] loop_k.simps [simp del]

text \<open>Lines 44 to 51: the coordinates of the lane, the loop nest, \<^verbatim>\<open>return c\<close>.\<close>

definition mfma_accumulate ::
  "int \<Rightarrow> 'a::{plus,times} list \<Rightarrow> 'a list \<Rightarrow> 'a floatx4 \<Rightarrow> error + 'a floatx4" where
  "mfma_accumulate tid a_tile b_tile c =
     loop_k a_tile b_tile (lane_m tid) (lane_n tid) 0 c"


subsection \<open>\<^verbatim>\<open>matmul_kernel_f32_16x16x4f32\<close> and the launch in \<^verbatim>\<open>main\<close>\<close>

text \<open>
  The launch in \<^verbatim>\<open>main\<close> (lines 118 to 127) starts 64 threads; thread \<open>i\<close> sets
  its thread-local \<^verbatim>\<open>tid\<close> to \<open>i\<close> and calls the kernel on the shared arrays
  \<^verbatim>\<open>a\<close>, \<^verbatim>\<open>b\<close>, \<^verbatim>\<open>c\<close>. The threads are modelled as an interleaving of atomic
  steps. A lane is a program point together with the locals that are live there
  (\<^verbatim>\<open>m\<close> and \<^verbatim>\<open>n\<close> of lines 44 and 45 are functions of \<^verbatim>\<open>tid\<close> and are not
  stored):
\<close>

datatype 'a lane =
    At_kernel
      \<comment> \<open>line 58, before \<^verbatim>\<open>a[tid]\<close>, \<^verbatim>\<open>b[tid]\<close>, \<^verbatim>\<open>c[tid]\<close> are read\<close>
  | At_assert 'a 'a "'a floatx4"
      \<comment> \<open>line 31, with the arguments \<^verbatim>\<open>a\<close>, \<^verbatim>\<open>b\<close>, \<^verbatim>\<open>c\<close>\<close>
  | At_write_a 'a 'a "'a floatx4"
      \<comment> \<open>line 38, \<^verbatim>\<open>a_tile[tid] = a\<close>\<close>
  | At_write_b 'a "'a floatx4"
      \<comment> \<open>line 39, \<^verbatim>\<open>b_tile[tid] = b\<close>, with \<^verbatim>\<open>b\<close> and \<^verbatim>\<open>c\<close>\<close>
  | At_arrive "'a floatx4"
      \<comment> \<open>line 42, about to arrive at the barrier\<close>
  | At_wait nat "'a floatx4"
      \<comment> \<open>line 42, arrived in the phase recorded, waiting for it to complete\<close>
  | At_loop int int "'a floatx4"
      \<comment> \<open>line 47, at the test of the inner loop, with \<^verbatim>\<open>k\<close>, \<^verbatim>\<open>p\<close> and \<^verbatim>\<open>c\<close>\<close>
  | At_return "'a floatx4"
      \<comment> \<open>lines 51 and 58: the value returned, about to be stored in \<^verbatim>\<open>c[tid]\<close>\<close>
  | Exited
  | Aborted error

text \<open>
  The shared state: the two static tiles and the static barrier of
  \<^verbatim>\<open>cpu_mfma_f32_16x16x4f32\<close>, the lanes, and the array \<^verbatim>\<open>c\<close> of \<^verbatim>\<open>main\<close>. The arrays
  \<^verbatim>\<open>a\<close> and \<^verbatim>\<open>b\<close> are \<^verbatim>\<open>const\<close> in the kernel and are parameters of the steps.

  \<^verbatim>\<open>std::barrier barrier(threads_per_subgroup, []() {})\<close> is the C++20 library
  barrier: \<^verbatim>\<open>arrive_and_wait\<close> decrements the count of arrivals expected in the
  current phase; the arrival that brings it to zero runs the (empty) completion
  function, resets the count and starts the next phase; the caller then blocks
  until the phase in which it arrived has completed.
\<close>

record 'a machine =
  a_tile :: "'a list"
  b_tile :: "'a list"
  expected :: nat
  phase :: nat
  lanes :: "'a lane list"
  c_mem :: "'a floatx4 list"

definition set_lane :: "nat \<Rightarrow> 'a lane \<Rightarrow> 'a machine \<Rightarrow> 'a machine" where
  "set_lane t l s = s\<lparr>lanes := (lanes s)[t := l]\<rparr>"

fun is_aborted :: "'a lane \<Rightarrow> bool" where
  "is_aborted (Aborted e) = True"
| "is_aborted _ = False"

text \<open>
  \<^verbatim>\<open>barrier.arrive_and_wait()\<close>, the arrival: the state of the barrier afterwards.
  (The count is never 0 when a lane arrives: the last arrival of a phase resets it.)
\<close>

definition barrier_arrive :: "'a machine \<Rightarrow> 'a machine" where
  "barrier_arrive s =
     (if expected s - 1 = 0
      then s\<lparr>expected := nat threads_per_subgroup, phase := phase s + 1\<rparr>
      else s\<lparr>expected := expected s - 1\<rparr>)"

text \<open>
  One atomic step of lane \<open>t\<close>, whose \<^verbatim>\<open>tid\<close> is \<open>t\<close>. \<open>None\<close>: the lane cannot
  move (it waits at the barrier, it has left the kernel, or the process has been
  aborted by a failed assertion or an access out of bounds).

  Each statement that touches shared memory is a step of its own: the reads of
  line 58, each write to a tile, the arrival, the wait, each execution of the loop
  body (which reads one element of each tile), the write to \<^verbatim>\<open>c[tid]\<close>. What
  lies between two of them works on locals and is taken with the step before:
  passing the wait also sets \<^verbatim>\<open>m\<close>, \<^verbatim>\<open>n\<close>, \<^verbatim>\<open>k = 0\<close> and \<^verbatim>\<open>p = 0\<close>; leaving
  the inner loop also increments \<^verbatim>\<open>k\<close> and tests it.
\<close>

definition lane_step :: "'a::{plus,times} list \<Rightarrow> 'a list \<Rightarrow> nat \<Rightarrow> 'a machine \<Rightarrow> 'a machine option" where
  "lane_step a b t s =
     (if length (lanes s) \<le> t \<or> list_ex is_aborted (lanes s) then None
      else
        (case lanes s ! t of
           At_kernel \<Rightarrow>
             Some (set_lane t
               (case load a (int t) of
                  Inl e \<Rightarrow> Aborted e
                | Inr x \<Rightarrow>
                    (case load b (int t) of
                       Inl e \<Rightarrow> Aborted e
                     | Inr y \<Rightarrow>
                         (case load (c_mem s) (int t) of
                            Inl e \<Rightarrow> Aborted e
                          | Inr f \<Rightarrow> At_assert x y f))) s)
         | At_assert x y f \<Rightarrow>
             Some (set_lane t
               (case mfma_assert (int t) of
                  Inl e \<Rightarrow> Aborted e
                | Inr _ \<Rightarrow> At_write_a x y f) s)
         | At_write_a x y f \<Rightarrow>
             Some (case store (a_tile s) (int t) x of
                     Inl e \<Rightarrow> set_lane t (Aborted e) s
                   | Inr a_tile' \<Rightarrow> set_lane t (At_write_b y f) (s\<lparr>a_tile := a_tile'\<rparr>))
         | At_write_b y f \<Rightarrow>
             Some (case store (b_tile s) (int t) y of
                     Inl e \<Rightarrow> set_lane t (Aborted e) s
                   | Inr b_tile' \<Rightarrow> set_lane t (At_arrive f) (s\<lparr>b_tile := b_tile'\<rparr>))
         | At_arrive f \<Rightarrow>
             Some (set_lane t (At_wait (phase s) f) (barrier_arrive s))
         | At_wait arrival f \<Rightarrow>
             (if phase s = arrival then None else Some (set_lane t (At_loop 0 0 f) s))
         | At_loop k p f \<Rightarrow>
             Some (set_lane t
               (if p < 4 then
                  (case loop_body (a_tile s) (b_tile s) (lane_m (int t)) (lane_n (int t)) k p f of
                     Inl e \<Rightarrow> Aborted e
                   | Inr f' \<Rightarrow> At_loop k (p + 1) f')
                else if k + 1 < 4 then At_loop (k + 1) 0 f
                else At_return f) s)
         | At_return f \<Rightarrow>
             Some (case store (c_mem s) (int t) f of
                     Inl e \<Rightarrow> set_lane t (Aborted e) s
                   | Inr c' \<Rightarrow> set_lane t Exited (s\<lparr>c_mem := c'\<rparr>))
         | Exited \<Rightarrow> None
         | Aborted e \<Rightarrow> None))"

text \<open>
  A schedule is the list of the lanes the scheduler picks, in order. Picking a
  lane that cannot move leaves the state as it is.
\<close>

definition pick :: "'a::{plus,times} list \<Rightarrow> 'a list \<Rightarrow> nat \<Rightarrow> 'a machine \<Rightarrow> 'a machine" where
  "pick a b t s = (case lane_step a b t s of None \<Rightarrow> s | Some s' \<Rightarrow> s')"

fun run :: "'a::{plus,times} list \<Rightarrow> 'a list \<Rightarrow> nat list \<Rightarrow> 'a machine \<Rightarrow> 'a machine" where
  "run a b [] s = s"
| "run a b (t # ts) s = run a b ts (pick a b t s)"

text \<open>
  The state in which \<^verbatim>\<open>main\<close> launches the 64 threads: the tiles hold whatever they
  hold, the barrier expects 64 arrivals in its first phase.
\<close>

definition launch :: "'a list \<Rightarrow> 'a list \<Rightarrow> 'a floatx4 list \<Rightarrow> 'a machine" where
  "launch a_tile0 b_tile0 c =
     \<lparr>a_tile = a_tile0, b_tile = b_tile0, expected = nat threads_per_subgroup, phase = 0,
      lanes = replicate (nat threads_per_subgroup) At_kernel, c_mem = c\<rparr>"


definition all_exited :: "'a machine \<Rightarrow> bool" where
  "all_exited s = list_all (\<lambda>l. l = Exited) (lanes s)"

text \<open>
  The round-robin schedule: 27 rounds, each lane one step per round (a lane takes 27
  steps from the call to the end).
\<close>

definition round_robin :: "nat list" where
  "round_robin = concat (replicate 27 [0..<64])"

subsection \<open>\<^verbatim>\<open>init_test_matrices\<close> (lines 62 to 68)\<close>

text \<open>
  The loop writes every element of the three arrays once, element \<open>i\<close> from \<open>i\<close>
  alone, so the arrays it leaves are the maps below. A \<^verbatim>\<open>bool\<close> converts to \<open>1\<close> or
  \<open>0\<close>; \<open>cast\<close> is \<^verbatim>\<open>static_cast<float>\<close> on \<^verbatim>\<open>int\<close>.
\<close>

definition init_a :: "'a::{zero,one} list" where
  "init_a = map (\<lambda>i. if i sdiv 16 = i smod 4 then 1 else 0) (map int [0..<64])"

definition init_b :: "'a::{zero,one} list" where
  "init_b = map (\<lambda>i. if i sdiv 16 = i smod 4 then 1 else 0) (map int [0..<64])"

definition init_c :: "(int \<Rightarrow> 'a::zero) \<Rightarrow> 'a floatx4 list" where
  "init_c cast = map (\<lambda>i. Floatx4 (cast i) 0 0 0) (map int [0..<64])"

definition init_test_matrices :: "(int \<Rightarrow> 'a::{zero,one}) \<Rightarrow> 'a list \<times> 'a list \<times> 'a floatx4 list" where
  "init_test_matrices cast = (init_a, init_b, init_c cast)"

section \<open>The reference: a 16x16x4 matrix multiply-accumulate\<close>

text \<open>
  The matrices behind the flat arrays, as the printing helpers of the source read
  them: \<^verbatim>\<open>print_a_matrix\<close> prints \<^verbatim>\<open>a[16 * k + m]\<close> at row \<open>m\<close>, column \<open>k\<close>;
  \<^verbatim>\<open>print_b_matrix\<close> prints \<^verbatim>\<open>b[16 * k + n]\<close> at row \<open>k\<close>, column \<open>n\<close>;
  \<^verbatim>\<open>print_c_matrix\<close> prints \<^verbatim>\<open>c[4 * m + n][p]\<close> at row \<open>m + p\<close>, column \<open>n\<close>, for
  \<open>m\<close> a multiple of 4 and \<open>p\<close> below 4.
\<close>

fun frag_nth :: "'a floatx4 \<Rightarrow> nat \<Rightarrow> 'a" where
  "frag_nth (Floatx4 x0 x1 x2 x3) p = [x0, x1, x2, x3] ! p"

definition A_mat :: "'a list \<Rightarrow> nat \<Rightarrow> nat \<Rightarrow> 'a" where
  "A_mat a m k = a ! (16 * k + m)"

definition B_mat :: "'a list \<Rightarrow> nat \<Rightarrow> nat \<Rightarrow> 'a" where
  "B_mat b k n = b ! (16 * k + n)"

definition C_mat :: "'a floatx4 list \<Rightarrow> nat \<Rightarrow> nat \<Rightarrow> 'a" where
  "C_mat c r n = frag_nth (c ! (4 * (4 * (r div 4)) + n)) (r mod 4)"

text \<open>
  The reference follows the words of the specification, not the kernel: element
  \<open>(r, n)\<close> of the result is element \<open>(r, n)\<close> of \<open>C\<close> with the four products
  \<open>A(r, k) * B(k, n)\<close> accumulated onto it, \<open>k\<close> ascending, which is the textbook
  loop \<^verbatim>\<open>for k: C[r][n] += A[r][k] * B[k][n]\<close>. It knows nothing of lanes, tiles
  or fragments.
\<close>

definition mma_ref :: "'a::{plus,times} list \<Rightarrow> 'a list \<Rightarrow> 'a floatx4 list \<Rightarrow> nat \<Rightarrow> nat \<Rightarrow> 'a" where
  "mma_ref a b c r n = foldl (\<lambda>s k. s + A_mat a r k * B_mat b k n) (C_mat c r n) [0..<4]"

text \<open>The rows \<open>4 * (t div 16) + p\<close> of column \<open>t mod 16\<close> of the reference, as the fragment at index \<open>t\<close>.\<close>

definition mma_ref_frag :: "'a::{plus,times} list \<Rightarrow> 'a list \<Rightarrow> 'a floatx4 list \<Rightarrow> nat \<Rightarrow> 'a floatx4" where
  "mma_ref_frag a b c t =
     Floatx4 (mma_ref a b c (4 * (t div 16)) (t mod 16))
             (mma_ref a b c (4 * (t div 16) + 1) (t mod 16))
             (mma_ref a b c (4 * (t div 16) + 2) (t mod 16))
             (mma_ref a b c (4 * (t div 16) + 3) (t mod 16))"

section \<open>Invariants of a launch\<close>

text \<open>The predicates of this section serve the proofs; none of them is program text.\<close>

fun has_arrived :: "'a lane \<Rightarrow> bool" where
  "has_arrived (At_wait arrival f) = True"
| "has_arrived (At_loop k p f) = True"
| "has_arrived (At_return f) = True"
| "has_arrived Exited = True"
| "has_arrived _ = False"

fun past_barrier :: "'a lane \<Rightarrow> bool" where
  "past_barrier (At_loop k p f) = True"
| "past_barrier (At_return f) = True"
| "past_barrier Exited = True"
| "past_barrier _ = False"

definition arrivals :: "'a lane list \<Rightarrow> nat" where
  "arrivals ls = length (filter has_arrived ls)"

fun stage :: "'a lane \<Rightarrow> nat" where
  "stage At_kernel = 0"
| "stage (At_assert x y f) = 1"
| "stage (At_write_a x y f) = 2"
| "stage (At_write_b y f) = 3"
| "stage (At_arrive f) = 4"
| "stage (At_wait arrival f) = 5"
| "stage (At_loop k p f) = 6 + min 19 (nat (5 * k + p))"
| "stage (At_return f) = 26"
| "stage Exited = 27"
| "stage (Aborted e) = 0"

text \<open>What is left of the loop nest at the test of the inner loop.\<close>

definition resume ::
  "'a::{plus,times} list \<Rightarrow> 'a list \<Rightarrow> int \<Rightarrow> int \<Rightarrow> int \<Rightarrow> 'a floatx4 \<Rightarrow> error + 'a floatx4"
where
  "resume A B tid k p c =
     (case loop_p A B (lane_m tid) (lane_n tid) k p c of
        Inl e \<Rightarrow> Inl e
      | Inr c' \<Rightarrow> loop_k A B (lane_m tid) (lane_n tid) (k + 1) c')"

text \<open>
  What holds of lane \<open>t\<close> at each program point, given its slots \<open>at\<close>, \<open>bt\<close> of the
  tiles, its element \<open>ct\<close> of \<^verbatim>\<open>c\<close> and the phase \<open>ph\<close> of the barrier; \<open>a\<close>, \<open>b\<close>
  and \<open>c0\<close> are the arrays at launch.
\<close>

fun lane_ok ::
  "'a::{plus,times} list \<Rightarrow> 'a list \<Rightarrow> 'a floatx4 list \<Rightarrow> nat \<Rightarrow> 'a \<Rightarrow> 'a \<Rightarrow> 'a floatx4 \<Rightarrow> nat \<Rightarrow> 'a lane \<Rightarrow> bool"
where
  "lane_ok a b c0 t at bt ct ph At_kernel = (ct = c0 ! t)"
| "lane_ok a b c0 t at bt ct ph (At_assert x y f) = (x = a ! t \<and> y = b ! t \<and> f = c0 ! t)"
| "lane_ok a b c0 t at bt ct ph (At_write_a x y f) = (x = a ! t \<and> y = b ! t \<and> f = c0 ! t)"
| "lane_ok a b c0 t at bt ct ph (At_write_b y f) = (at = a ! t \<and> y = b ! t \<and> f = c0 ! t)"
| "lane_ok a b c0 t at bt ct ph (At_arrive f) = (at = a ! t \<and> bt = b ! t \<and> f = c0 ! t)"
| "lane_ok a b c0 t at bt ct ph (At_wait arrival f) =
     (at = a ! t \<and> bt = b ! t \<and> f = c0 ! t \<and> arrival = 0)"
| "lane_ok a b c0 t at bt ct ph (At_loop k p f) =
     (at = a ! t \<and> bt = b ! t \<and> ph = 1 \<and> 0 \<le> k \<and> k < 4 \<and> 0 \<le> p \<and> p \<le> 4
      \<and> resume a b (int t) k p f = mfma_accumulate (int t) a b (c0 ! t))"
| "lane_ok a b c0 t at bt ct ph (At_return f) =
     (at = a ! t \<and> bt = b ! t \<and> mfma_accumulate (int t) a b (c0 ! t) = Inr f \<and> ph = 1)"
| "lane_ok a b c0 t at bt ct ph Exited =
     (at = a ! t \<and> bt = b ! t \<and> mfma_accumulate (int t) a b (c0 ! t) = Inr ct \<and> ph = 1)"
| "lane_ok a b c0 t at bt ct ph (Aborted e) = False"

definition lanes_ok :: "'a::{plus,times} list \<Rightarrow> 'a list \<Rightarrow> 'a floatx4 list \<Rightarrow> 'a machine \<Rightarrow> bool" where
  "lanes_ok a b c0 s =
     (\<forall>t<64. lane_ok a b c0 t (a_tile s ! t) (b_tile s ! t) (c_mem s ! t) (phase s) (lanes s ! t))"

definition shape_ok :: "'a machine \<Rightarrow> bool" where
  "shape_ok s =
     (length (lanes s) = 64 \<and> length (a_tile s) = 64 \<and> length (b_tile s) = 64
      \<and> length (c_mem s) = 64)"

definition barrier_ok :: "'a machine \<Rightarrow> bool" where
  "barrier_ok s =
     (phase s = 0 \<and> 0 < expected s \<and> expected s + arrivals (lanes s) = 64
      \<or> phase s = 1 \<and> expected s = 64 \<and> arrivals (lanes s) = 64)"

definition launch_inv :: "'a::{plus,times} list \<Rightarrow> 'a list \<Rightarrow> 'a floatx4 list \<Rightarrow> 'a machine \<Rightarrow> bool" where
  "launch_inv a b c0 s = (shape_ok s \<and> barrier_ok s \<and> lanes_ok a b c0 s)"



text \<open>One product of the loop nest: the operands read at \<open>k\<close> for component \<open>p\<close>.\<close>

definition term_k :: "'a::{plus,times} list \<Rightarrow> 'a list \<Rightarrow> int \<Rightarrow> int \<Rightarrow> int \<Rightarrow> int \<Rightarrow> 'a" where
  "term_k A B m n p k = A ! nat (16 * k + m + p) * B ! nat (16 * k + n)"

section \<open>Test data\<close>

definition test_a :: "int list" where
  "test_a = map (\<lambda>i. int i + 2) [0..<64]"

definition test_b :: "int list" where
  "test_b = map (\<lambda>i. 3 * int i + 1) [0..<64]"

definition test_c :: "int floatx4 list" where
  "test_c = map (\<lambda>i. Floatx4 (int i) 1 2 3) [0..<64]"

definition zeros :: "int list" where
  "zeros = replicate 64 0"

definition finished_with :: "'a machine \<Rightarrow> nat \<Rightarrow> 'a floatx4 \<Rightarrow> bool" where
  "finished_with s i f = (all_exited s \<and> c_mem s ! i = f)"

text \<open>
  A schedule unlike the round robin: lanes 63 down to 0 each run alone up to the
  barrier, then lanes 0 up to 63 each run alone to the end.
\<close>

definition one_by_one :: "nat list" where
  "one_by_one = concat (map (replicate 5) (rev [0..<64])) @ concat (map (replicate 22) [0..<64])"

section \<open>Index arithmetic and the loop nest\<close>

lemma sdiv_nonneg: "0 \<le> t \<Longrightarrow> (t::int) sdiv 16 = t div 16"
  by (simp add: signed_divide_int_def sgn_if)

lemma smod_nonneg: "0 \<le> t \<Longrightarrow> (t::int) smod 16 = t mod 16"
  by (simp add: signed_modulo_int_def sgn_if)

lemma lane_m_range: "0 \<le> t \<Longrightarrow> t < 64 \<Longrightarrow> lane_m t \<in> {0, 4, 8, 12}"
  unfolding lane_m_def by (simp add: sdiv_nonneg) presburger

lemma lane_n_range: "0 \<le> t \<Longrightarrow> t < 64 \<Longrightarrow> 0 \<le> lane_n t \<and> lane_n t < 16"
  unfolding lane_n_def by (simp add: smod_nonneg)

lemma lane_mn_inj: "inj_on lane_mn {0..<64}"
proof (rule inj_onI)
  fix s t :: int
  assume s: "s \<in> {0..<64}" and t: "t \<in> {0..<64}" and e: "lane_mn s = lane_mn t"
  from s t e have "s div 16 = t div 16" "s mod 16 = t mod 16"
    by (simp_all add: lane_mn_def lane_m_def lane_n_def sdiv_nonneg smod_nonneg)
  then show "s = t" by (metis mult_div_mod_eq)
qed

lemma lane_mn_image: "lane_mn ` {0..<64} = {0, 4, 8, 12} \<times> {0..<16}"
proof (rule set_eqI, rule iffI)
  fix x
  assume "x \<in> lane_mn ` {0..<64}"
  then obtain t where t: "0 \<le> t" "t < 64" and x: "x = lane_mn t" by auto
  show "x \<in> {0, 4, 8, 12} \<times> {0..<16}"
    using lane_m_range[OF t] lane_n_range[OF t] by (simp add: x lane_mn_def)
next
  fix x :: "int \<times> int"
  assume x: "x \<in> {0, 4, 8, 12} \<times> {0..<16}"
  obtain m n where mn: "x = (m, n)" by (cases x)
  from x mn have m: "m \<in> {0, 4, 8, 12}" and n: "0 \<le> n" "n < 16" by auto
  from m obtain q where q: "m = 4 * q" "0 \<le> q" "q < 4" by auto
  let ?t = "16 * q + n"
  from q n have r: "0 \<le> ?t" "?t < 64" by auto
  from q n have "4 * (?t div 16) = m" "?t mod 16 = n" by simp_all
  then have "lane_mn ?t = (m, n)"
    using r by (simp add: lane_mn_def lane_m_def lane_n_def sdiv_nonneg smod_nonneg)
  with r show "x \<in> lane_mn ` {0..<64}" unfolding mn
    by (metis atLeastLessThan_iff imageI)
qed

lemma load_in: "0 \<le> i \<Longrightarrow> i < int (length xs) \<Longrightarrow> load xs i = Inr (xs ! nat i)"
  by (simp add: load_def)

lemma load_nat: "t < length xs \<Longrightarrow> load xs (int t) = Inr (xs ! t)"
  by (simp add: load_def)

lemma store_nat: "t < length xs \<Longrightarrow> store xs (int t) v = Inr (xs[t := v])"
  by (simp add: store_def)

lemma assert_nat: "t < 64 \<Longrightarrow> mfma_assert (int t) = Inr ()"
  by (simp add: mfma_assert_def threads_per_subgroup_def)

lemma loop_p_closed:
  assumes "length A = 64" "length B = 64" "m \<in> {0, 4, 8, 12}" "0 \<le> n" "n < 16"
    "k \<in> {0, 1, 2, 3}"
  shows "loop_p A B m n k 0 (Floatx4 x0 x1 x2 x3) =
     Inr (Floatx4 (x0 + term_k A B m n 0 k) (x1 + term_k A B m n 1 k)
                  (x2 + term_k A B m n 2 k) (x3 + term_k A B m n 3 k))"
  using assms by (auto simp add: loop_p.simps loop_body_def load_in term_k_def)

lemma loop_k_closed:
  assumes "length A = 64" "length B = 64" "m \<in> {0, 4, 8, 12}" "0 \<le> n" "n < 16"
  shows "loop_k A B m n 0 (Floatx4 x0 x1 x2 x3) =
     Inr (Floatx4 (foldl (\<lambda>s k. s + term_k A B m n 0 k) x0 [0, 1, 2, 3])
                  (foldl (\<lambda>s k. s + term_k A B m n 1 k) x1 [0, 1, 2, 3])
                  (foldl (\<lambda>s k. s + term_k A B m n 2 k) x2 [0, 1, 2, 3])
                  (foldl (\<lambda>s k. s + term_k A B m n 3 k) x3 [0, 1, 2, 3]))"
  using assms by (simp add: loop_k.simps loop_p_closed)

lemma accumulate_closed:
  assumes "length A = 64" "length B = 64" "0 \<le> t" "t < 64"
  shows "mfma_accumulate t A B (Floatx4 x0 x1 x2 x3) =
     Inr (Floatx4 (foldl (\<lambda>s k. s + term_k A B (lane_m t) (lane_n t) 0 k) x0 [0, 1, 2, 3])
                  (foldl (\<lambda>s k. s + term_k A B (lane_m t) (lane_n t) 1 k) x1 [0, 1, 2, 3])
                  (foldl (\<lambda>s k. s + term_k A B (lane_m t) (lane_n t) 2 k) x2 [0, 1, 2, 3])
                  (foldl (\<lambda>s k. s + term_k A B (lane_m t) (lane_n t) 3 k) x3 [0, 1, 2, 3]))"
  unfolding mfma_accumulate_def
  using assms lane_m_range[of t] lane_n_range[of t] by (intro loop_k_closed) auto

lemma accumulate_returns:
  assumes "length A = 64" "length B = 64" "0 \<le> t" "t < 64"
  obtains f' where "mfma_accumulate t A B f = Inr f'"
  using accumulate_closed[OF assms] by (cases f) blast

lemma resume_start: "resume A B tid 0 0 c = mfma_accumulate tid A B c"
  by (simp add: resume_def mfma_accumulate_def loop_k.simps[of A B _ _ 0 c])

lemma resume_body:
  assumes "p < 4"
  shows "resume A B tid k p c =
     (case loop_body A B (lane_m tid) (lane_n tid) k p c of
        Inl e \<Rightarrow> Inl e
      | Inr c' \<Rightarrow> resume A B tid k (p + 1) c')"
  using assms
  by (simp add: resume_def loop_p.simps[of A B _ _ k p c] split: sum.splits)

lemma resume_exit:
  assumes "\<not> p < 4"
  shows "resume A B tid k p c = (if k + 1 < 4 then resume A B tid (k + 1) 0 c else Inr c)"
  using assms
  by (simp add: resume_def loop_p.simps[of A B _ _ k p c] loop_k.simps[of A B _ _ "k + 1" c])

text \<open>The bounds checks of the model are live: a tile one element short is caught.\<close>

lemma short_tile_out_of_bounds:
  "mfma_accumulate 63 (replicate 63 (1::int)) (replicate 64 1) (Floatx4 0 0 0 0) = Inl Out_of_bounds"
  by code_simp

lemma publish_in_range:
  assumes "i < 64" "length A = 64" "length B = 64"
  shows "mfma_publish (int i) x y (A, B) = Inr (A[i := x], B[i := y])"
  using assms by (simp add: mfma_publish_def assert_nat store_nat)

lemma publish_assert_iff:
  "mfma_publish tid x y tiles = Inl Assertion_failed \<longleftrightarrow> threads_per_subgroup \<le> tid"
  by (auto simp: mfma_publish_def mfma_assert_def store_def split: sum.splits if_splits)

section \<open>The kernel against the reference\<close>

text \<open>In a semiring the reference is the usual \<open>C + A B\<close>.\<close>

lemma mma_ref_sum:
  fixes a b :: "'a::semiring_0 list"
  shows "mma_ref a b c r n = C_mat c r n + (\<Sum>k<4. A_mat a r k * B_mat b k n)"
  by (simp add: mma_ref_def upt_rec numeral_eq_Suc lessThan_Suc add.assoc add.commute add.left_commute)

lemma lane_m_nat: "lane_m (int t) = int (4 * (t div 16))"
  by (simp add: lane_m_def sdiv_nonneg zdiv_int)

lemma lane_n_nat: "lane_n (int t) = int (t mod 16)"
  by (simp add: lane_n_def smod_nonneg zmod_int)

lemma C_mat_lane: "p < 4 \<Longrightarrow> C_mat c (4 * q + p) n = frag_nth (c ! (4 * (4 * q) + n)) p"
  by (simp add: C_mat_def)

lemma accumulate_ref:
  fixes a b :: "'a::{plus,times} list"
  assumes "length a = 64" "length b = 64" "length c = 64" "t < 64"
  shows "mfma_accumulate (int t) a b (c ! t) = Inr (mma_ref_frag a b c t)"
proof -
  obtain x0 x1 x2 x3 where f: "c ! t = Floatx4 x0 x1 x2 x3" by (cases "c ! t")
  have t: "4 * (4 * (t div 16)) + t mod 16 = t" by presburger
  have C: "C_mat c (4 * (t div 16)) (t mod 16) = x0" "C_mat c (4 * (t div 16) + 1) (t mod 16) = x1"
    "C_mat c (4 * (t div 16) + 2) (t mod 16) = x2" "C_mat c (4 * (t div 16) + 3) (t mod 16) = x3"
    using C_mat_lane[of 0 c "t div 16" "t mod 16"] C_mat_lane[of 1 c "t div 16" "t mod 16"]
      C_mat_lane[of 2 c "t div 16" "t mod 16"] C_mat_lane[of 3 c "t div 16" "t mod 16"]
    by (simp_all add: t f)
  have n4: "nat (4 * int q) = 4 * q" for q by simp
  have ref: "mma_ref_frag a b c t =
      Floatx4 (foldl (\<lambda>s k. s + A_mat a (4 * (t div 16)) k * B_mat b k (t mod 16)) x0 [0..<4])
              (foldl (\<lambda>s k. s + A_mat a (4 * (t div 16) + 1) k * B_mat b k (t mod 16)) x1 [0..<4])
              (foldl (\<lambda>s k. s + A_mat a (4 * (t div 16) + 2) k * B_mat b k (t mod 16)) x2 [0..<4])
              (foldl (\<lambda>s k. s + A_mat a (4 * (t div 16) + 3) k * B_mat b k (t mod 16)) x3 [0..<4])"
    unfolding mma_ref_frag_def mma_ref_def C ..
  have "mfma_accumulate (int t) a b (Floatx4 x0 x1 x2 x3) = Inr (mma_ref_frag a b c t)"
    using assms(4) unfolding ref
    by (subst accumulate_closed[OF assms(1,2)])
      (simp_all add: term_k_def A_mat_def B_mat_def lane_m_nat lane_n_nat
        upt_rec nat_add_distrib n4 add.commute)
  then show ?thesis by (simp add: f)
qed

lemma ref_frags_matrix:
  assumes "r < 16" "n < 16"
  shows "C_mat (map (mma_ref_frag a b c) [0..<64]) r n = mma_ref a b c r n"
proof -
  let ?t = "4 * (4 * (r div 4)) + n"
  from assms have "r div 4 < 4" by (simp add: less_mult_imp_div_less)
  with assms have t: "?t < 64" "?t div 16 = r div 4" "?t mod 16 = n" by auto
  have "r mod 4 < 4" by simp
  then consider "r mod 4 = 0" | "r mod 4 = 1" | "r mod 4 = 2" | "r mod 4 = 3" by linarith
  then have "frag_nth (mma_ref_frag a b c ?t) (r mod 4) = mma_ref a b c (4 * (r div 4) + r mod 4) n"
    using assms by cases (simp_all add: mma_ref_frag_def)
  then show ?thesis using t(1) by (simp add: C_mat_def del: frag_nth.simps)
qed

section \<open>The launch: safety\<close>

lemma arrivals_update_same:
  "t < length ls \<Longrightarrow> has_arrived l = has_arrived (ls ! t) \<Longrightarrow> arrivals (ls[t := l]) = arrivals ls"
  unfolding arrivals_def
proof (induction ls arbitrary: t)
  case Nil
  then show ?case by simp
next
  case (Cons x xs)
  then show ?case by (cases t) auto
qed

lemma arrivals_update_new:
  "t < length ls \<Longrightarrow> \<not> has_arrived (ls ! t) \<Longrightarrow> has_arrived l
    \<Longrightarrow> arrivals (ls[t := l]) = Suc (arrivals ls)"
  unfolding arrivals_def
proof (induction ls arbitrary: t)
  case Nil
  then show ?case by simp
next
  case (Cons x xs)
  then show ?case by (cases t) auto
qed

lemma arrivals_full:
  assumes "arrivals ls = length ls" "t < length ls"
  shows "has_arrived (ls ! t)"
proof (rule ccontr)
  assume "\<not> has_arrived (ls ! t)"
  with assms(2) have "length (filter has_arrived ls) < length ls"
    by (intro length_filter_less[of "ls ! t"]) auto
  with assms(1) show False by (simp add: arrivals_def)
qed

lemma arrivals_all:
  assumes "\<And>t. t < length ls \<Longrightarrow> has_arrived (ls ! t)"
  shows "arrivals ls = length ls"
proof -
  have "\<forall>l\<in>set ls. has_arrived l"
    using assms by (auto simp: in_set_conv_nth)
  then have "filter has_arrived ls = ls" by simp
  then show ?thesis by (simp add: arrivals_def)
qed

lemma has_arrived_stage: "has_arrived l \<longleftrightarrow> 5 \<le> stage l"
  by (cases l) auto

lemma stage_exited: "stage l = 27 \<longleftrightarrow> l = Exited"
  by (cases l) (auto simp: min_def)

lemma inv_not_aborted:
  assumes "launch_inv a b c0 s"
  shows "\<not> list_ex is_aborted (lanes s)"
proof
  assume "list_ex is_aborted (lanes s)"
  then obtain l where l: "l \<in> set (lanes s)" "is_aborted l" by (auto simp: list_ex_iff)
  then obtain t where t: "t < length (lanes s)" "lanes s ! t = l" by (auto simp: in_set_conv_nth)
  from l(2) obtain e where "l = Aborted e" by (cases l) auto
  with t assms show False by (auto simp: launch_inv_def shape_ok_def lanes_ok_def)
qed

text \<open>Once the first phase of the barrier has completed, every lane has arrived.\<close>

lemma inv_all_arrived:
  assumes "launch_inv a b c0 s" "phase s = 1" "t < 64"
  shows "has_arrived (lanes s ! t)"
  using assms by (intro arrivals_full) (auto simp: launch_inv_def shape_ok_def barrier_ok_def)

lemma lane_ok_arrived_tiles:
  "lane_ok a b c0 t at bt ct ph l \<Longrightarrow> has_arrived l \<Longrightarrow> at = a ! t \<and> bt = b ! t"
  by (cases l) auto

text \<open>And then the tiles are the arrays \<^verbatim>\<open>a\<close> and \<^verbatim>\<open>b\<close>, whole.\<close>

lemma inv_tiles:
  assumes "launch_inv a b c0 s" "phase s = 1" "length a = 64" "length b = 64"
  shows "a_tile s = a \<and> b_tile s = b"
proof -
  have *: "a_tile s ! t = a ! t \<and> b_tile s ! t = b ! t" if "t < 64" for t
    using inv_all_arrived[OF assms(1,2) that] assms(1) that
    by (auto simp: launch_inv_def lanes_ok_def dest: lane_ok_arrived_tiles)
  from assms(1) have "length (a_tile s) = 64" "length (b_tile s) = 64"
    by (auto simp: launch_inv_def shape_ok_def)
  with * assms(3,4) show ?thesis by (auto intro: nth_equalityI)
qed

lemma inv_past_barrier:
  assumes "launch_inv a b c0 s" "j < 64" "past_barrier (lanes s ! j)"
  shows "phase s = 1"
proof -
  from assms(1,2)
  have "lane_ok a b c0 j (a_tile s ! j) (b_tile s ! j) (c_mem s ! j) (phase s) (lanes s ! j)"
    by (simp add: launch_inv_def lanes_ok_def)
  with assms(3) show ?thesis by (cases "lanes s ! j") auto
qed

lemma lane_ok_frame:
  assumes "lane_ok a b c0 t at bt ct ph l" "ph' = ph \<or> ph = 0"
  shows "lane_ok a b c0 t at bt ct ph' l"
  using assms by (cases l) auto

section \<open>The launch: every step keeps the invariant\<close>

lemma inv_set_lane:
  fixes a b :: "'a::{plus,times} list"
  assumes inv: "launch_inv a b c0 s" and t: "t < 64"
    and same: "has_arrived l = has_arrived (lanes s ! t)"
    and ok: "lane_ok a b c0 t (a_tile s ! t) (b_tile s ! t) (c_mem s ! t) (phase s) l"
  shows "launch_inv a b c0 (set_lane t l s)"
  unfolding launch_inv_def
proof (intro conjI)
  from inv have shape: "shape_ok s" by (simp add: launch_inv_def)
  then show "shape_ok (set_lane t l s)" by (simp add: shape_ok_def set_lane_def)
  from inv have "barrier_ok s" by (simp add: launch_inv_def)
  then show "barrier_ok (set_lane t l s)"
    using shape t same by (simp add: barrier_ok_def shape_ok_def set_lane_def arrivals_update_same)
  from inv have "lanes_ok a b c0 s" by (simp add: launch_inv_def)
  then show "lanes_ok a b c0 (set_lane t l s)"
    using shape t ok by (auto simp: lanes_ok_def shape_ok_def set_lane_def nth_list_update)
qed

lemma inv_write_a:
  fixes a b :: "'a::{plus,times} list"
  assumes inv: "launch_inv a b c0 s" and t: "t < 64" and at: "lanes s ! t = At_write_a x y f"
  shows "launch_inv a b c0 (set_lane t (At_write_b y f) (s\<lparr>a_tile := (a_tile s)[t := x]\<rparr>))"
  unfolding launch_inv_def
proof (intro conjI)
  let ?s = "set_lane t (At_write_b y f) (s\<lparr>a_tile := (a_tile s)[t := x]\<rparr>)"
  from inv have shape: "shape_ok s" by (simp add: launch_inv_def)
  then show "shape_ok ?s" by (simp add: shape_ok_def set_lane_def)
  from inv have "barrier_ok s" by (simp add: launch_inv_def)
  then show "barrier_ok ?s"
    using shape t at by (simp add: barrier_ok_def shape_ok_def set_lane_def arrivals_update_same)
  from inv have "lanes_ok a b c0 s" by (simp add: launch_inv_def)
  then show "lanes_ok a b c0 ?s"
    using shape t at by (auto simp: lanes_ok_def shape_ok_def set_lane_def nth_list_update)
qed

lemma inv_write_b:
  fixes a b :: "'a::{plus,times} list"
  assumes inv: "launch_inv a b c0 s" and t: "t < 64" and at: "lanes s ! t = At_write_b y f"
  shows "launch_inv a b c0 (set_lane t (At_arrive f) (s\<lparr>b_tile := (b_tile s)[t := y]\<rparr>))"
  unfolding launch_inv_def
proof (intro conjI)
  let ?s = "set_lane t (At_arrive f) (s\<lparr>b_tile := (b_tile s)[t := y]\<rparr>)"
  from inv have shape: "shape_ok s" by (simp add: launch_inv_def)
  then show "shape_ok ?s" by (simp add: shape_ok_def set_lane_def)
  from inv have "barrier_ok s" by (simp add: launch_inv_def)
  then show "barrier_ok ?s"
    using shape t at by (simp add: barrier_ok_def shape_ok_def set_lane_def arrivals_update_same)
  from inv have "lanes_ok a b c0 s" by (simp add: launch_inv_def)
  then show "lanes_ok a b c0 ?s"
    using shape t at by (auto simp: lanes_ok_def shape_ok_def set_lane_def nth_list_update)
qed

lemma inv_write_c:
  fixes a b :: "'a::{plus,times} list"
  assumes inv: "launch_inv a b c0 s" and t: "t < 64" and at: "lanes s ! t = At_return f"
  shows "launch_inv a b c0 (set_lane t Exited (s\<lparr>c_mem := (c_mem s)[t := f]\<rparr>))"
  unfolding launch_inv_def
proof (intro conjI)
  let ?s = "set_lane t Exited (s\<lparr>c_mem := (c_mem s)[t := f]\<rparr>)"
  from inv have shape: "shape_ok s" by (simp add: launch_inv_def)
  then show "shape_ok ?s" by (simp add: shape_ok_def set_lane_def)
  from inv have "barrier_ok s" by (simp add: launch_inv_def)
  then show "barrier_ok ?s"
    using shape t at by (simp add: barrier_ok_def shape_ok_def set_lane_def arrivals_update_same)
  from inv have "lanes_ok a b c0 s" by (simp add: launch_inv_def)
  then show "lanes_ok a b c0 ?s"
    using shape t at by (auto simp: lanes_ok_def shape_ok_def set_lane_def nth_list_update)
qed

text \<open>The arrival: the 64th completes the phase, and no lane has passed the barrier before.\<close>

lemma inv_arrive:
  fixes a b :: "'a::{plus,times} list"
  assumes inv: "launch_inv a b c0 s" and t: "t < 64" and at: "lanes s ! t = At_arrive f"
  shows "launch_inv a b c0 (set_lane t (At_wait (phase s) f) (barrier_arrive s))"
proof -
  let ?s = "set_lane t (At_wait (phase s) f) (barrier_arrive s)"
  from inv have shape: "length (lanes s) = 64" "length (a_tile s) = 64" "length (b_tile s) = 64"
    "length (c_mem s) = 64"
    by (auto simp: launch_inv_def shape_ok_def)
  from inv have bar: "barrier_ok s" by (simp add: launch_inv_def)
  from inv have oks: "\<And>u. u < 64 \<Longrightarrow>
      lane_ok a b c0 u (a_tile s ! u) (b_tile s ! u) (c_mem s ! u) (phase s) (lanes s ! u)"
    by (simp add: launch_inv_def lanes_ok_def)
  have "\<not> has_arrived (lanes s ! t)" using at by simp
  with inv_all_arrived[OF inv _ t] have "phase s \<noteq> 1" by blast
  with bar have b0: "phase s = 0" "0 < expected s" "expected s + arrivals (lanes s) = 64"
    by (auto simp: barrier_ok_def)
  have arr: "arrivals ((lanes s)[t := At_wait (phase s) f]) = Suc (arrivals (lanes s))"
    using t shape at by (simp add: arrivals_update_new)
  have fields: "a_tile ?s = a_tile s" "b_tile ?s = b_tile s" "c_mem ?s = c_mem s"
    "lanes ?s = (lanes s)[t := At_wait 0 f]"
    by (simp_all add: set_lane_def barrier_arrive_def b0)
  show ?thesis unfolding launch_inv_def
  proof (intro conjI)
    show "shape_ok ?s" using shape by (simp add: shape_ok_def set_lane_def barrier_arrive_def)
    show "barrier_ok ?s" using b0 arr
      by (auto simp: barrier_ok_def set_lane_def barrier_arrive_def threads_per_subgroup_def)
    show "lanes_ok a b c0 ?s" unfolding lanes_ok_def
    proof (intro allI impI)
      fix u :: nat
      assume u: "u < 64"
      have "lane_ok a b c0 u (a_tile s ! u) (b_tile s ! u) (c_mem s ! u) (phase ?s) (lanes s ! u)"
        by (rule lane_ok_frame[OF oks[OF u]]) (simp add: b0)
      moreover have "lane_ok a b c0 t (a_tile s ! t) (b_tile s ! t) (c_mem s ! t) (phase ?s) (At_wait 0 f)"
        using oks[OF t] at by simp
      ultimately show "lane_ok a b c0 u (a_tile ?s ! u) (b_tile ?s ! u) (c_mem ?s ! u) (phase ?s) (lanes ?s ! u)"
        unfolding fields using shape u by (cases "u = t") simp_all
    qed
  qed
qed

text \<open>
  One execution of the loop body, or the end of an inner loop: what is left of the
  loop nest still has the same result, so the body cannot fail.
\<close>

lemma loop_step:
  fixes a b :: "'a::{plus,times} list"
  assumes len: "length a = 64" "length b = 64" and t: "t < 64"
    and k: "0 \<le> k" "k < 4" and p: "0 \<le> p" "p \<le> 4"
    and res: "resume a b (int t) k p f = mfma_accumulate (int t) a b c"
  obtains f' where "p < 4" "loop_body a b (lane_m (int t)) (lane_n (int t)) k p f = Inr f'"
      "resume a b (int t) k (p + 1) f' = mfma_accumulate (int t) a b c"
    | "\<not> p < 4" "k + 1 < 4" "resume a b (int t) (k + 1) 0 f = mfma_accumulate (int t) a b c"
    | "\<not> p < 4" "\<not> k + 1 < 4" "mfma_accumulate (int t) a b c = Inr f"
proof -
  from t obtain g where g: "mfma_accumulate (int t) a b c = Inr g"
    using accumulate_returns[OF len, of "int t" c] by auto
  show ?thesis
  proof (cases "p < 4")
    case True
    from resume_body[OF True, of a b "int t" k f] res g
    obtain f' where "loop_body a b (lane_m (int t)) (lane_n (int t)) k p f = Inr f'"
      "resume a b (int t) k (p + 1) f' = Inr g"
      by (auto split: sum.splits)
    with True g that(1) show ?thesis by simp
  next
    case False
    from resume_exit[OF False, of a b "int t" k f] res
    have "(if k + 1 < 4 then resume a b (int t) (k + 1) 0 f else Inr f) = mfma_accumulate (int t) a b c"
      by simp
    with False that(2,3) show ?thesis by (cases "k + 1 < 4") simp_all
  qed
qed

lemma step_preserves:
  fixes a b :: "'a::{plus,times} list"
  assumes inv: "launch_inv a b c0 s"
    and len: "length a = 64" "length b = 64" "length c0 = 64"
    and step: "lane_step a b t s = Some s'"
  shows "launch_inv a b c0 s'"
proof -
  from step have t: "t < length (lanes s)"
    by (auto simp: lane_step_def split: if_splits)
  from inv have shape: "length (lanes s) = 64" "length (a_tile s) = 64" "length (b_tile s) = 64"
    "length (c_mem s) = 64"
    by (auto simp: launch_inv_def shape_ok_def)
  from t shape have t64: "t < 64" by simp
  from inv t64 have ok: "lane_ok a b c0 t (a_tile s ! t) (b_tile s ! t) (c_mem s ! t) (phase s) (lanes s ! t)"
    by (simp add: launch_inv_def lanes_ok_def)
  note na = inv_not_aborted[OF inv]
  show ?thesis
  proof (cases "lanes s ! t")
    case At_kernel
    with step t na t64 len shape have "s' = set_lane t (At_assert (a ! t) (b ! t) (c_mem s ! t)) s"
      by (simp add: lane_step_def load_nat)
    moreover from ok At_kernel
    have "lane_ok a b c0 t (a_tile s ! t) (b_tile s ! t) (c_mem s ! t) (phase s)
        (At_assert (a ! t) (b ! t) (c_mem s ! t))"
      by simp
    ultimately show ?thesis using inv_set_lane[OF inv t64] At_kernel by simp
  next
    case (At_assert x y f)
    with step t na t64 have "s' = set_lane t (At_write_a x y f) s"
      by (simp add: lane_step_def assert_nat)
    moreover from ok At_assert
    have "lane_ok a b c0 t (a_tile s ! t) (b_tile s ! t) (c_mem s ! t) (phase s) (At_write_a x y f)"
      by simp
    ultimately show ?thesis using inv_set_lane[OF inv t64] At_assert by simp
  next
    case (At_write_a x y f)
    with step t na t64 shape have "s' = set_lane t (At_write_b y f) (s\<lparr>a_tile := (a_tile s)[t := x]\<rparr>)"
      by (simp add: lane_step_def store_nat)
    with inv_write_a[OF inv t64 At_write_a] show ?thesis by simp
  next
    case (At_write_b y f)
    with step t na t64 shape have "s' = set_lane t (At_arrive f) (s\<lparr>b_tile := (b_tile s)[t := y]\<rparr>)"
      by (simp add: lane_step_def store_nat)
    with inv_write_b[OF inv t64 At_write_b] show ?thesis by simp
  next
    case (At_arrive f)
    with step t na have "s' = set_lane t (At_wait (phase s) f) (barrier_arrive s)"
      by (simp add: lane_step_def)
    with inv_arrive[OF inv t64 At_arrive] show ?thesis by simp
  next
    case (At_wait arrival f)
    with step t na have ph: "phase s \<noteq> arrival" and s': "s' = set_lane t (At_loop 0 0 f) s"
      by (simp_all add: lane_step_def split: if_splits)
    from ok At_wait have "arrival = 0" by simp
    with ph inv have "phase s = 1" by (auto simp: launch_inv_def barrier_ok_def)
    with ok At_wait
    have "lane_ok a b c0 t (a_tile s ! t) (b_tile s ! t) (c_mem s ! t) (phase s) (At_loop 0 0 f)"
      by (simp add: resume_start)
    with s' show ?thesis using inv_set_lane[OF inv t64] At_wait by simp
  next
    case (At_loop k p f)
    from ok At_loop have ph1: "phase s = 1"
      and slots: "a_tile s ! t = a ! t" "b_tile s ! t = b ! t"
      and kp: "0 \<le> k" "k < 4" "0 \<le> p" "p \<le> 4"
      and res: "resume a b (int t) k p f = mfma_accumulate (int t) a b (c0 ! t)"
      by simp_all
    from inv_tiles[OF inv ph1 len(1,2)] have tiles: "a_tile s = a" "b_tile s = b" by simp_all
    from len(1,2) t64 kp res show ?thesis
    proof (cases rule: loop_step)
      case (1 f')
      with At_loop step t na tiles have "s' = set_lane t (At_loop k (p + 1) f') s"
        by (simp add: lane_step_def)
      moreover from 1 kp slots ph1
      have "lane_ok a b c0 t (a_tile s ! t) (b_tile s ! t) (c_mem s ! t) (phase s) (At_loop k (p + 1) f')"
        by simp
      ultimately show ?thesis using inv_set_lane[OF inv t64] At_loop by simp
    next
      case 2
      with At_loop step t na have "s' = set_lane t (At_loop (k + 1) 0 f) s"
        by (simp add: lane_step_def)
      moreover from 2 kp slots ph1
      have "lane_ok a b c0 t (a_tile s ! t) (b_tile s ! t) (c_mem s ! t) (phase s) (At_loop (k + 1) 0 f)"
        by simp
      ultimately show ?thesis using inv_set_lane[OF inv t64] At_loop by simp
    next
      case 3
      with At_loop step t na have "s' = set_lane t (At_return f) s"
        by (simp add: lane_step_def)
      moreover from 3 slots ph1
      have "lane_ok a b c0 t (a_tile s ! t) (b_tile s ! t) (c_mem s ! t) (phase s) (At_return f)"
        by simp
      ultimately show ?thesis using inv_set_lane[OF inv t64] At_loop by simp
    qed
  next
    case (At_return f)
    with step t na t64 shape have "s' = set_lane t Exited (s\<lparr>c_mem := (c_mem s)[t := f]\<rparr>)"
      by (simp add: lane_step_def store_nat)
    with inv_write_c[OF inv t64 At_return] show ?thesis by simp
  next
    case Exited
    with step t na show ?thesis by (simp add: lane_step_def)
  next
    case (Aborted e)
    with step t na show ?thesis by (simp add: lane_step_def)
  qed
qed

lemma pick_preserves:
  fixes a b :: "'a::{plus,times} list"
  assumes "launch_inv a b c0 s" "length a = 64" "length b = 64" "length c0 = 64"
  shows "launch_inv a b c0 (pick a b t s)"
  using assms step_preserves[OF assms, of t]
  by (cases "lane_step a b t s") (simp_all add: pick_def)

lemma run_preserves:
  fixes a b :: "'a::{plus,times} list"
  assumes "launch_inv a b c0 s" "length a = 64" "length b = 64" "length c0 = 64"
  shows "launch_inv a b c0 (run a b ts s)"
  using assms(1)
proof (induction ts arbitrary: s)
  case Nil
  then show ?case by simp
next
  case (Cons t ts)
  from Cons.prems have "launch_inv a b c0 (pick a b t s)"
    using assms(2-4) by (rule pick_preserves)
  then show ?case by (simp add: Cons.IH)
qed

lemma launch_inv_init:
  assumes "length at0 = 64" "length bt0 = 64" "length c0 = 64"
  shows "launch_inv a b c0 (launch at0 bt0 c0)"
  using assms
  by (simp add: launch_inv_def shape_ok_def barrier_ok_def lanes_ok_def launch_def
      threads_per_subgroup_def arrivals_def)

lemma exited_result:
  fixes a b :: "'a::{plus,times} list"
  assumes "launch_inv a b c0 s" "all_exited s" "t < 64"
  shows "mfma_accumulate (int t) a b (c0 ! t) = Inr (c_mem s ! t)"
proof -
  from assms(1,3) have "lanes s ! t \<in> set (lanes s)"
    by (simp add: launch_inv_def shape_ok_def)
  with assms(2) have "lanes s ! t = Exited"
    by (simp add: all_exited_def list_all_iff)
  with assms(1,3) show ?thesis
    by (auto simp: launch_inv_def lanes_ok_def)
qed

lemma launch_result:
  fixes a b :: "'a::{plus,times} list"
  assumes len: "length a = 64" "length b = 64" "length c = 64" "length at0 = 64" "length bt0 = 64"
    and fin: "all_exited (run a b ts (launch at0 bt0 c))"
  shows "c_mem (run a b ts (launch at0 bt0 c)) = map (mma_ref_frag a b c) [0..<64]"
proof -
  let ?s = "run a b ts (launch at0 bt0 c)"
  have inv: "launch_inv a b c ?s"
    using launch_inv_init[OF len(4,5,3)] len(1-3) by (rule run_preserves)
  then have "length (c_mem ?s) = 64" by (simp add: launch_inv_def shape_ok_def)
  moreover have "c_mem ?s ! t = mma_ref_frag a b c t" if "t < 64" for t
    using exited_result[OF inv fin that] accumulate_ref[OF len(1-3) that] by simp
  ultimately show ?thesis by (auto intro: nth_equalityI)
qed

section \<open>The launch: progress\<close>

text \<open>
  A lane that is neither at the end nor held by the barrier moves when picked, and
  no lane ever moves back. So a round in which every lane is picked once raises the
  least stage among the lanes, and 27 rounds finish a launch from wherever it
  stands: no schedule can lead the 64 lanes into a deadlock.
\<close>

lemma step_progress:
  fixes a b :: "'a::{plus,times} list"
  assumes inv: "launch_inv a b c0 s"
    and len: "length a = 64" "length b = 64" "length c0 = 64"
    and t64: "t < 64"
    and live: "stage (lanes s ! t) < 27"
    and open_barrier: "stage (lanes s ! t) = 5 \<Longrightarrow> phase s = 1"
  shows "stage (lanes (pick a b t s) ! t) = Suc (stage (lanes s ! t))
           \<and> (\<forall>u. u \<noteq> t \<longrightarrow> lanes (pick a b t s) ! u = lanes s ! u)"
proof -
  from inv have shape: "length (lanes s) = 64" "length (a_tile s) = 64" "length (b_tile s) = 64"
    "length (c_mem s) = 64"
    by (auto simp: launch_inv_def shape_ok_def)
  from inv t64 have ok: "lane_ok a b c0 t (a_tile s ! t) (b_tile s ! t) (c_mem s ! t) (phase s) (lanes s ! t)"
    by (simp add: launch_inv_def lanes_ok_def)
  note na = inv_not_aborted[OF inv]
  show ?thesis
  proof (cases "lanes s ! t")
    case At_kernel
    with t64 na len shape show ?thesis
      by (simp add: pick_def lane_step_def load_nat set_lane_def)
  next
    case (At_assert x y f)
    with t64 na len shape show ?thesis
      by (simp add: pick_def lane_step_def assert_nat set_lane_def)
  next
    case (At_write_a x y f)
    with t64 na len shape show ?thesis
      by (simp add: pick_def lane_step_def store_nat set_lane_def)
  next
    case (At_write_b y f)
    with t64 na len shape show ?thesis
      by (simp add: pick_def lane_step_def store_nat set_lane_def)
  next
    case (At_arrive f)
    with t64 na len shape show ?thesis
      by (simp add: pick_def lane_step_def set_lane_def barrier_arrive_def)
  next
    case (At_wait arrival f)
    with ok have "arrival = 0" by simp
    moreover from At_wait open_barrier have "phase s = 1" by simp
    ultimately show ?thesis using At_wait t64 na len shape
      by (simp add: pick_def lane_step_def set_lane_def)
  next
    case (At_loop k p f)
    from ok At_loop have ph1: "phase s = 1"
      and kp: "0 \<le> k" "k < 4" "0 \<le> p" "p \<le> 4"
      and res: "resume a b (int t) k p f = mfma_accumulate (int t) a b (c0 ! t)"
      by simp_all
    from inv_tiles[OF inv ph1 len(1,2)] have tiles: "a_tile s = a" "b_tile s = b" by simp_all
    from len(1,2) t64 kp res show ?thesis
    proof (cases rule: loop_step)
      case (1 f')
      from kp 1(1) have "nat (5 * k + (p + 1)) = Suc (nat (5 * k + p))"
        by (simp add: Suc_nat_eq_nat_zadd1 algebra_simps)
      moreover from kp 1(1) have "nat (5 * k + p) < 19" by arith
      ultimately have "stage (At_loop k (p + 1) f') = Suc (stage (At_loop k p f))" by simp
      with 1 At_loop t64 na tiles shape show ?thesis
        by (simp add: pick_def lane_step_def set_lane_def del: stage.simps)
    next
      case 2
      from kp 2(1,2) have "nat (5 * (k + 1) + 0) = Suc (nat (5 * k + p))"
        by (simp add: Suc_nat_eq_nat_zadd1 algebra_simps)
      moreover from kp 2(1,2) have "nat (5 * k + p) < 19" by arith
      ultimately have "stage (At_loop (k + 1) 0 f) = Suc (stage (At_loop k p f))" by simp
      with 2 At_loop t64 na shape show ?thesis
        by (simp add: pick_def lane_step_def set_lane_def del: stage.simps)
    next
      case 3
      from kp 3(1,2) have "nat (5 * k + p) = 19" by arith
      then have "stage (At_return f) = Suc (stage (At_loop k p f))" by simp
      with 3 At_loop t64 na shape show ?thesis
        by (simp add: pick_def lane_step_def set_lane_def del: stage.simps)
    qed
  next
    case (At_return f)
    with t64 na len shape show ?thesis
      by (simp add: pick_def lane_step_def store_nat set_lane_def)
  next
    case Exited
    with live show ?thesis by simp
  next
    case (Aborted e)
    with ok show ?thesis by simp
  qed
qed

lemma run_append: "run a b (ts @ us) s = run a b us (run a b ts s)"
  by (induction ts arbitrary: s) simp_all

lemma stage_le_27: "stage l \<le> 27"
  by (cases l) (auto simp: min_def)

lemma pick_blocked:
  fixes a b :: "'a::{plus,times} list"
  assumes inv: "launch_inv a b c0 s" and t64: "t < 64"
    and blocked: "stage (lanes s ! t) = 27 \<or> stage (lanes s ! t) = 5 \<and> phase s \<noteq> 1"
  shows "pick a b t s = s"
proof -
  from inv t64 have ok: "lane_ok a b c0 t (a_tile s ! t) (b_tile s ! t) (c_mem s ! t) (phase s) (lanes s ! t)"
    by (simp add: launch_inv_def lanes_ok_def)
  from inv have bar: "barrier_ok s" by (simp add: launch_inv_def)
  show ?thesis
  proof (cases "lanes s ! t")
    case (At_wait arrival f)
    with ok have "arrival = 0" by simp
    moreover from blocked At_wait bar have "phase s = 0" by (auto simp: barrier_ok_def)
    ultimately show ?thesis using At_wait by (simp add: pick_def lane_step_def)
  next
    case Exited
    then show ?thesis by (simp add: pick_def lane_step_def)
  qed (use blocked in \<open>auto simp: min_def split: if_splits\<close>)
qed

lemma pick_stage:
  fixes a b :: "'a::{plus,times} list"
  assumes inv: "launch_inv a b c0 s"
    and len: "length a = 64" "length b = 64" "length c0 = 64"
    and t64: "t < 64"
  shows "stage (lanes s ! u) \<le> stage (lanes (pick a b t s) ! u)"
proof (cases "stage (lanes s ! t) = 27 \<or> stage (lanes s ! t) = 5 \<and> phase s \<noteq> 1")
  case True
  with pick_blocked[OF inv t64] show ?thesis by simp
next
  case False
  with stage_le_27[of "lanes s ! t"] have "stage (lanes s ! t) < 27" by simp
  from step_progress[OF inv len t64 this] False show ?thesis
    by (cases "u = t") auto
qed

lemma round_lower_prefix:
  fixes a b :: "'a::{plus,times} list"
  assumes inv: "launch_inv a b c0 s"
    and len: "length a = 64" "length b = 64" "length c0 = 64"
    and low: "\<And>u. u < 64 \<Longrightarrow> m \<le> stage (lanes s ! u)"
    and m: "m < 27"
    and k: "k \<le> 64"
  shows "\<forall>u<64. (if u < k then Suc m else m) \<le> stage (lanes (run a b [0..<k] s) ! u)"
  using k
proof (induction k)
  case 0
  then show ?case by (simp add: low)
next
  case (Suc k)
  let ?s = "run a b [0..<k] s"
  from Suc have IH: "\<And>u. u < 64 \<Longrightarrow> (if u < k then Suc m else m) \<le> stage (lanes ?s ! u)"
    by simp
  from Suc.prems have k64: "k < 64" by simp
  have inv': "launch_inv a b c0 ?s" using inv len by (rule run_preserves)
  then have shape: "length (lanes ?s) = 64" by (simp add: launch_inv_def shape_ok_def)
  have run: "run a b [0..<Suc k] s = pick a b k ?s"
    by (simp add: run_append)
  have mono: "stage (lanes ?s ! u) \<le> stage (lanes (pick a b k ?s) ! u)" for u
    using inv' len k64 by (rule pick_stage)
  have lane_k: "Suc m \<le> stage (lanes (pick a b k ?s) ! k)"
  proof (cases "stage (lanes ?s ! k) = m")
    case True
    have opened: "phase ?s = 1" if "stage (lanes ?s ! k) = 5"
    proof -
      from that True have m5: "m = 5" by simp
      have "has_arrived (lanes ?s ! u)" if "u < length (lanes ?s)" for u
        using IH[of u] that shape m5 by (auto simp: has_arrived_stage split: if_splits)
      then have "arrivals (lanes ?s) = 64" using shape arrivals_all[of "lanes ?s"] by simp
      with inv' show ?thesis by (auto simp: launch_inv_def barrier_ok_def)
    qed
    from True m have "stage (lanes ?s ! k) < 27" by simp
    from step_progress[OF inv' len k64 this opened] True show ?thesis by simp
  next
    case False
    with IH[OF k64] have "Suc m \<le> stage (lanes ?s ! k)" by simp
    with mono[of k] show ?thesis by simp
  qed
  show ?case
  proof (intro allI impI)
    fix u :: nat assume u: "u < 64"
    show "(if u < Suc k then Suc m else m) \<le> stage (lanes (run a b [0..<Suc k] s) ! u)"
    proof (cases "u = k")
      case True
      with lane_k run show ?thesis by simp
    next
      case False
      with IH[OF u] mono[of u] run show ?thesis by (auto simp: less_Suc_eq)
    qed
  qed
qed

lemma rounds_lower:
  fixes a b :: "'a::{plus,times} list"
  assumes len: "length a = 64" "length b = 64" "length c0 = 64"
  shows "launch_inv a b c0 s \<Longrightarrow> (\<And>u. u < 64 \<Longrightarrow> m \<le> stage (lanes s ! u)) \<Longrightarrow> m + r \<le> 27
    \<Longrightarrow> \<forall>u<64. m + r \<le> stage (lanes (run a b (concat (replicate r [0..<64])) s) ! u)"
proof (induction r arbitrary: s m)
  case 0
  then show ?case by simp
next
  case (Suc r)
  let ?s = "run a b [0..<64] s"
  have inv': "launch_inv a b c0 ?s" using Suc.prems(1) len by (rule run_preserves)
  from Suc.prems(3) have "m < 27" by simp
  from round_lower_prefix[OF Suc.prems(1) len Suc.prems(2) this, of 64]
  have st: "\<And>u. u < 64 \<Longrightarrow> Suc m \<le> stage (lanes ?s ! u)" by simp
  from Suc.prems(3) have "Suc m + r \<le> 27" by simp
  from Suc.IH[OF inv' st this] show ?case
    by (simp add: run_append)
qed

text \<open>From any state a launch can reach, 27 rounds bring every lane to the end.\<close>

lemma round_robin_completes:
  fixes a b :: "'a::{plus,times} list"
  assumes "launch_inv a b c0 s" "length a = 64" "length b = 64" "length c0 = 64"
  shows "all_exited (run a b round_robin s)"
proof -
  let ?s = "run a b round_robin s"
  from rounds_lower[OF assms(2-4) assms(1), of 0 27]
  have "\<forall>u<64. 27 \<le> stage (lanes ?s ! u)" by (simp add: round_robin_def)
  then have *: "\<forall>u<64. stage (lanes ?s ! u) = 27"
    using stage_le_27 by (auto intro: le_antisym)
  have "launch_inv a b c0 ?s" using assms by (rule run_preserves)
  then have "length (lanes ?s) = 64" by (simp add: launch_inv_def shape_ok_def)
  with * show ?thesis
    by (auto simp: all_exited_def list_all_iff in_set_conv_nth stage_exited)
qed

lemma launch_completes:
  fixes a b :: "'a::{plus,times} list"
  assumes "length a = 64" "length b = 64" "length c0 = 64" "length at0 = 64" "length bt0 = 64"
  shows "all_exited (run a b (ts @ round_robin) (launch at0 bt0 c0))"
proof -
  have "launch_inv a b c0 (run a b ts (launch at0 bt0 c0))"
    using launch_inv_init[OF assms(4,5,3)] assms(1-3) by (rule run_preserves)
  from round_robin_completes[OF this assms(1-3)] show ?thesis
    by (simp add: run_append)
qed


lemma round_robin_exits:
  fixes a b :: "'a::{plus,times} list"
  assumes "length a = 64" "length b = 64" "length c0 = 64" "length at0 = 64" "length bt0 = 64"
  shows "all_exited (run a b round_robin (launch at0 bt0 c0))"
  using launch_completes[OF assms, of "[]"] by simp

section \<open>Frames of a step\<close>

lemma lane_step_tiles_frame:
  assumes "lane_step a b i s = Some s'" "j \<noteq> i"
  shows "a_tile s' ! j = a_tile s ! j \<and> b_tile s' ! j = b_tile s ! j"
  using assms
  by (auto simp: lane_step_def set_lane_def store_def barrier_arrive_def
      split: if_splits lane.splits sum.splits)

lemma lane_step_c_frame:
  assumes "lane_step a b i s = Some s'" "j \<noteq> i"
  shows "c_mem s' ! j = c_mem s ! j \<and> length (c_mem s') = length (c_mem s)"
  using assms
  by (auto simp: lane_step_def set_lane_def store_def barrier_arrive_def
      split: if_splits lane.splits sum.splits)

lemma lane_step_c_blind:
  assumes "i \<noteq> j"
  shows "lane_step a b i (s\<lparr>c_mem := (c_mem s)[j := v]\<rparr>)
       = map_option (\<lambda>s'. s'\<lparr>c_mem := (c_mem s')[j := v]\<rparr>) (lane_step a b i s)"
  using assms
  by (auto simp: lane_step_def set_lane_def store_def load_def barrier_arrive_def list_update_swap
      split: lane.splits sum.splits)

lemma lane_step_reads_own:
  assumes "j \<noteq> i"
  shows "lane_step (a[j := v]) (b[j := w]) i s = lane_step a b i s"
  using assms by (auto simp: lane_step_def load_def split: lane.splits sum.splits)

lemma not_aborted_update:
  assumes "\<not> list_ex is_aborted ls" "\<not> is_aborted l"
  shows "\<not> list_ex is_aborted (ls[i := l])"
  using assms set_update_subset_insert[of ls i l] by (auto simp: list_ex_iff)

text \<open>
  The three steps of a lane from the assertion to the barrier do to the tiles what
  \<open>mfma_publish\<close> does, when no other lane moves in between.
\<close>

lemma publish_steps:
  fixes a b :: "'a::{plus,times} list"
  assumes i: "i < 64" and shape: "shape_ok s" and na: "\<not> list_ex is_aborted (lanes s)"
    and at: "lanes s ! i = At_assert x y f"
  shows "mfma_publish (int i) x y (a_tile s, b_tile s)
           = Inr (a_tile (run a b [i, i, i] s), b_tile (run a b [i, i, i] s))
     \<and> lanes (run a b [i, i, i] s) = (lanes s)[i := At_arrive f]"
proof -
  from shape have len: "length (lanes s) = 64" "length (a_tile s) = 64" "length (b_tile s) = 64"
    by (simp_all add: shape_ok_def)
  define s1 where "s1 = set_lane i (At_write_a x y f) s"
  define s2 where "s2 = set_lane i (At_write_b y f) (s1\<lparr>a_tile := (a_tile s)[i := x]\<rparr>)"
  define s3 where "s3 = set_lane i (At_arrive f) (s2\<lparr>b_tile := (b_tile s)[i := y]\<rparr>)"
  have p1: "pick a b i s = s1"
    using i len na at by (simp add: pick_def lane_step_def assert_nat s1_def)
  have l1: "lanes s1 = (lanes s)[i := At_write_a x y f]" "a_tile s1 = a_tile s" "b_tile s1 = b_tile s"
    by (simp_all add: s1_def set_lane_def)
  have na1: "\<not> list_ex is_aborted (lanes s1)"
    unfolding l1 using na by (rule not_aborted_update) simp
  have p2: "pick a b i s1 = s2"
    using i len na1 by (simp add: pick_def lane_step_def store_nat s2_def l1)
  have l2: "lanes s2 = (lanes s)[i := At_write_b y f]" "a_tile s2 = (a_tile s)[i := x]"
    "b_tile s2 = b_tile s"
    by (simp_all add: s2_def set_lane_def l1)
  have na2: "\<not> list_ex is_aborted (lanes s2)"
    unfolding l2 using na by (rule not_aborted_update) simp
  have p3: "pick a b i s2 = s3"
    using i len na2 by (simp add: pick_def lane_step_def store_nat s3_def l2)
  have l3: "lanes s3 = (lanes s)[i := At_arrive f]" "a_tile s3 = (a_tile s)[i := x]"
    "b_tile s3 = (b_tile s)[i := y]"
    by (simp_all add: s3_def set_lane_def l2)
  have "run a b [i, i, i] s = s3" by (simp add: p1 p2 p3)
  then show ?thesis
    using publish_in_range[OF i len(2,3), of x y] by (simp add: l3)
qed

section \<open>The write to \<^verbatim>\<open>c[tid]\<close>\<close>

text \<open>
  A lane reaches the end only through the store of line 58, and once there it and
  its element of \<^verbatim>\<open>c\<close> stay as they are. So a schedule after which lane \<open>i\<close> is at
  the end splits at that store.
\<close>

lemma pick_other:
  assumes "t \<noteq> i"
  shows "lanes (pick a b t s) ! i = lanes s ! i"
  using assms
  by (auto simp: pick_def lane_step_def set_lane_def barrier_arrive_def
      split: option.splits if_splits lane.splits sum.splits)

lemma pick_length: "length (lanes (pick a b t s)) = length (lanes s)"
  by (auto simp: pick_def lane_step_def set_lane_def barrier_arrive_def
      split: option.splits if_splits lane.splits sum.splits)

lemma pick_exits:
  assumes "lanes s ! i \<noteq> Exited" "lanes (pick a b t s) ! i = Exited"
  shows "t = i \<and> (\<exists>f. lanes s ! i = At_return f \<and> c_mem (pick a b t s) = (c_mem s)[i := f]
           \<and> i < length (c_mem s))"
proof (cases "t = i")
  case False
  with assms pick_other[OF False, of a b s] show ?thesis by simp
next
  case True
  with assms show ?thesis
    by (auto simp: pick_def lane_step_def set_lane_def store_def barrier_arrive_def
        split: option.splits if_splits lane.splits sum.splits)
qed

lemma exited_stays:
  assumes "lanes s ! i = Exited" "i < length (lanes s)"
  shows "lanes (run a b ts s) ! i = Exited \<and> c_mem (run a b ts s) ! i = c_mem s ! i"
  using assms
proof (induction ts arbitrary: s)
  case Nil
  then show ?case by simp
next
  case (Cons t ts)
  show ?case
  proof (cases "t = i")
    case True
    with Cons.prems have "pick a b t s = s" by (simp add: pick_def lane_step_def)
    with Cons show ?thesis by simp
  next
    case False
    have l: "lanes (pick a b t s) ! i = Exited" "i < length (lanes (pick a b t s))"
      using Cons.prems pick_other[OF False, of a b s] by (simp_all add: pick_length)
    have "c_mem (pick a b t s) ! i = c_mem s ! i"
      using lane_step_c_frame[of a b t s _ i] False
      by (cases "lane_step a b t s") (auto simp: pick_def)
    with Cons.IH[OF l] show ?thesis by simp
  qed
qed

lemma write_step_exists:
  assumes "lanes s ! i \<noteq> Exited" "i < length (lanes s)" "lanes (run a b ts s) ! i = Exited"
  shows "\<exists>ts1 ts2 f. ts = ts1 @ i # ts2 \<and> lanes (run a b ts1 s) ! i = At_return f
           \<and> c_mem (run a b (ts1 @ [i]) s) = (c_mem (run a b ts1 s))[i := f]
           \<and> c_mem (run a b ts s) ! i = f"
  using assms
proof (induction ts arbitrary: s)
  case Nil
  then show ?case by simp
next
  case (Cons t ts)
  let ?s1 = "pick a b t s"
  show ?case
  proof (cases "lanes ?s1 ! i = Exited")
    case True
    from pick_exits[OF Cons.prems(1) True] obtain f where
      t: "t = i" and f: "lanes s ! i = At_return f" "c_mem ?s1 = (c_mem s)[i := f]"
      "i < length (c_mem s)"
      by blast
    from exited_stays[OF True, of a b ts] Cons.prems(2)
    have "c_mem (run a b ts ?s1) ! i = c_mem ?s1 ! i" by (simp add: pick_length)
    with f have "c_mem (run a b (t # ts) s) ! i = f" by simp
    with t f show ?thesis
      by (intro exI[of _ "[]"] exI[of _ ts] exI[of _ f]) simp
  next
    case False
    from Cons.prems have "lanes (run a b ts ?s1) ! i = Exited" "i < length (lanes ?s1)"
      by (simp_all add: pick_length)
    from Cons.IH[OF False this(2,1)] obtain ts1 ts2 f where
      *: "ts = ts1 @ i # ts2" "lanes (run a b ts1 ?s1) ! i = At_return f"
      "c_mem (run a b (ts1 @ [i]) ?s1) = (c_mem (run a b ts1 ?s1))[i := f]"
      "c_mem (run a b ts ?s1) ! i = f"
      by blast
    then show ?thesis
      by (intro exI[of _ "t # ts1"] exI[of _ ts2] exI[of _ f]) simp
  qed
qed

lemma pick_own_unwritten:
  assumes "lanes (pick a b i s) ! i \<noteq> Exited"
  shows "c_mem (pick a b i s) = c_mem s"
  using assms
  by (auto simp: pick_def lane_step_def set_lane_def store_def barrier_arrive_def
      split: option.splits if_splits lane.splits sum.splits)

lemma unwritten_before_exit:
  assumes "lanes (run a b ts s) ! i \<noteq> Exited" "i < length (lanes s)"
  shows "c_mem (run a b ts s) ! i = c_mem s ! i"
  using assms
proof (induction ts arbitrary: s)
  case Nil
  then show ?case by simp
next
  case (Cons t ts)
  let ?s1 = "pick a b t s"
  have l: "i < length (lanes ?s1)" using Cons.prems(2) by (simp add: pick_length)
  have ne: "lanes ?s1 ! i \<noteq> Exited"
  proof
    assume "lanes ?s1 ! i = Exited"
    from exited_stays[OF this l, of a b ts] Cons.prems(1) show False by simp
  qed
  have "c_mem ?s1 ! i = c_mem s ! i"
  proof (cases "t = i")
    case True
    with ne pick_own_unwritten[of a b i s] show ?thesis by simp
  next
    case False
    then show ?thesis
      using lane_step_c_frame[of a b t s _ i]
      by (cases "lane_step a b t s") (auto simp: pick_def)
  qed
  moreover from Cons.prems(1) have "lanes (run a b ts ?s1) ! i \<noteq> Exited" by simp
  ultimately show ?case using Cons.IH[OF _ l] by simp
qed

lemma run_length: "length (lanes (run a b ts s)) = length (lanes s)"
  by (induction ts arbitrary: s) (simp_all add: pick_length)

section \<open>A launch after earlier launches\<close>





















section \<open>The model, run\<close>

text \<open>
  The machine run from its definitions alone, lane after lane, on tiles holding
  leftovers: every lane reaches the end, and lane 17 has stored in \<open>c[17]\<close> the
  fragment that the loop nest yields for it.
\<close>

lemma one_by_one_run:
  "finished_with (run test_a test_b one_by_one (launch test_b test_a test_c)) 17
     (Floatx4 12977 13265 13570 13875)"
  by code_simp

text \<open>
  The reference on the arrays of \<^verbatim>\<open>init_test_matrices\<close>, element by element: the
  initial \<open>C\<close> has \<open>4 * r + n\<close> in every fourth row and 0 elsewhere, and the
  product of \<open>A\<close> and \<open>B\<close> has a 1 where \<open>r\<close> and \<open>n\<close> agree modulo 4.
\<close>

lemma identity_scenario_values:
  "list_all (\<lambda>r. list_all (\<lambda>n.
       mma_ref init_a init_b (init_c (\<lambda>i. i)) r n
         = (if r mod 4 = 0 then 4 * int r + int n else 0) + (if r mod 4 = n mod 4 then 1 else 0))
     [0..<16]) [0..<16]"
  by code_simp

section \<open>The claims\<close>

text \<open>
  Claim C1. For a lane id \<open>t\<close> in \<open>[0, 64)\<close>, with \<open>m = 4 * (t / 16)\<close> and
  \<open>n = t % 16\<close>, and tiles that hold the 64 published operands, the part of
  \<^verbatim>\<open>cpu_mfma_f32_16x16x4f32\<close> after the barrier returns the fragment whose component
  \<open>p\<close> is \<open>c[p]\<close> with the four products \<open>A_tile[16*k + m + p] * B_tile[16*k + n]\<close>,
  \<open>k = 0, 1, 2, 3\<close>, added onto it in that order. The fragment has no fifth
  component.
\<close>

theorem compute_accumulates:
  fixes A_tile B_tile :: "'a::{plus,times} list"
  assumes "0 \<le> t" "t < 64" "length A_tile = 64" "length B_tile = 64"
    and "m = 4 * (t div 16)" "n = t mod 16"
  shows "mfma_accumulate t A_tile B_tile (Floatx4 c0 c1 c2 c3) =
     Inr (Floatx4
       (foldl (\<lambda>s k. s + A_tile ! nat (16 * k + m + 0) * B_tile ! nat (16 * k + n)) c0 [0, 1, 2, 3])
       (foldl (\<lambda>s k. s + A_tile ! nat (16 * k + m + 1) * B_tile ! nat (16 * k + n)) c1 [0, 1, 2, 3])
       (foldl (\<lambda>s k. s + A_tile ! nat (16 * k + m + 2) * B_tile ! nat (16 * k + n)) c2 [0, 1, 2, 3])
       (foldl (\<lambda>s k. s + A_tile ! nat (16 * k + m + 3) * B_tile ! nat (16 * k + n)) c3 [0, 1, 2, 3]))"
proof -
  from assms(1,5,6) have "lane_m t = m" "lane_n t = n"
    by (simp_all add: lane_m_def lane_n_def sdiv_nonneg smod_nonneg)
  then show ?thesis
    using accumulate_closed[OF assms(3,4,1,2), of c0 c1 c2 c3] by (simp add: term_k_def)
qed

theorem compute_accumulates_witness:
  "(0::int) \<le> 17 \<and> (17::int) < 64 \<and> length test_a = 64 \<and> length test_b = 64
   \<and> (4::int) = 4 * (17 div 16) \<and> (1::int) = 17 mod 16
   \<and> mfma_accumulate 17 test_a test_b (Floatx4 17 1 2 3) = Inr (Floatx4 12977 13265 13570 13875)"
proof -
  have len: "length test_a = 64" "length test_b = 64"
    by (simp_all add: test_a_def test_b_def)
  have "mfma_accumulate 17 test_a test_b (Floatx4 17 1 2 3) = Inr (Floatx4 12977 13265 13570 13875)"
    using compute_accumulates[of 17 test_a test_b 4 1 17 1 2 3] len
    by (simp add: test_a_def test_b_def)
  with len show ?thesis by simp
qed

text \<open>
  Claim C2. The map from a lane id \<open>t\<close> to \<open>(m, n) = (4 * (t / 16), t % 16)\<close> is
  injective on \<open>[0, 64)\<close> and its image is exactly the grid
  \<open>{0, 4, 8, 12} \<times> {0, ..., 15}\<close>, which has 64 elements.
\<close>

theorem lane_coverage:
  "inj_on lane_mn {0..<64}
   \<and> lane_mn ` {0..<64} = {0, 4, 8, 12} \<times> {0..<16}
   \<and> card (lane_mn ` {0..<64}) = 64"
proof -
  have "card (lane_mn ` {0..<64}) = card {0..<64::int}"
    using lane_mn_inj by (rule card_image)
  then show ?thesis using lane_mn_inj lane_mn_image by simp
qed

text \<open>
  Claim C3. With the arrays of \<^verbatim>\<open>init_test_matrices\<close>, the launch of the 64 lanes
  runs to the end (whatever has been scheduled so far, the round robin finishes
  it), and however the lanes interleave, a launch that has run to the end leaves
  in \<^verbatim>\<open>c\<close> the reference multiply-accumulate of the matrices \<open>A\<close> (element
  \<open>(m, k)\<close> at \<open>a[16*k + m]\<close>) and \<open>B\<close> (element \<open>(k, n)\<close> at \<open>b[16*k + n]\<close>)
  onto the initial \<open>C\<close>.
\<close>

theorem identity_scenario_matches_reference:
  fixes cast :: "int \<Rightarrow> 'a::{plus,times,zero,one}"
  assumes "init_test_matrices cast = (a, b, c)"
    and "length a_tile0 = 64" "length b_tile0 = 64"
  shows "(\<forall>ts. all_exited (run a b (ts @ round_robin) (launch a_tile0 b_tile0 c)))
     \<and> (\<forall>ts. all_exited (run a b ts (launch a_tile0 b_tile0 c)) \<longrightarrow>
          c_mem (run a b ts (launch a_tile0 b_tile0 c)) = map (mma_ref_frag a b c) [0..<64]
          \<and> (\<forall>r<16. \<forall>n<16.
                C_mat (c_mem (run a b ts (launch a_tile0 b_tile0 c))) r n = mma_ref a b c r n))"
proof -
  from assms(1) have abc: "a = init_a" "b = init_b" "c = init_c cast"
    by (simp_all add: init_test_matrices_def)
  have len: "length a = 64" "length b = 64" "length c = 64"
    by (simp_all add: abc init_a_def init_b_def init_c_def)
  show ?thesis
    using launch_completes[OF len assms(2,3)] launch_result[OF len assms(2,3)]
    by (simp add: ref_frags_matrix)
qed

theorem identity_scenario_witness:
  "init_test_matrices (\<lambda>i. i) = (init_a, init_b, init_c (\<lambda>i. i)) \<and> length zeros = 64
   \<and> all_exited (run init_a init_b round_robin (launch zeros zeros (init_c (\<lambda>i. i))))
   \<and> c_mem (run init_a init_b round_robin (launch zeros zeros (init_c (\<lambda>i. i)))) ! 5
       = Floatx4 5 1 0 0
   \<and> C_mat (c_mem (run init_a init_b round_robin (launch zeros zeros (init_c (\<lambda>i. i))))) 14 6
       = (1::int)"
proof -
  have z: "length zeros = 64" by (simp add: zeros_def)
  have i: "init_test_matrices (\<lambda>i. i) = (init_a, init_b, init_c (\<lambda>i. i :: int))"
    by (simp add: init_test_matrices_def)
  note inst = identity_scenario_matches_reference[OF i z z]
  from inst[THEN conjunct1, rule_format, of "[]"]
  have fin: "all_exited (run init_a init_b round_robin (launch zeros zeros (init_c (\<lambda>i. i))))"
    by simp
  note at_end = inst[THEN conjunct2, rule_format, OF fin]
  from at_end have c: "c_mem (run init_a init_b round_robin (launch zeros zeros (init_c (\<lambda>i. i))))
      = map (mma_ref_frag init_a init_b (init_c (\<lambda>i. i))) [0..<64]"
    by (rule conjunct1)
  from at_end[THEN conjunct2, rule_format, of 14 6]
  have m: "C_mat (c_mem (run init_a init_b round_robin (launch zeros zeros (init_c (\<lambda>i. i))))) 14 6
      = mma_ref init_a init_b (init_c (\<lambda>i. i)) 14 6"
    by simp
  have "mma_ref_frag init_a init_b (init_c (\<lambda>i. i)) 5 = Floatx4 5 1 0 (0::int)"
    by code_simp
  moreover have "mma_ref init_a init_b (init_c (\<lambda>i. i)) 14 6 = (1::int)"
    by code_simp
  ultimately show ?thesis using z i fin m by (simp add: c)
qed



text \<open>
  Claim C5. For a lane id \<open>i\<close> in \<open>[0, 64)\<close>, the publish of lines 38 and 39 writes
  \<open>a_tile[i]\<close> and \<open>b_tile[i]\<close> and nothing else; no step of lane \<open>i\<close> changes
  another slot of either tile; and in every state a launch can reach in which some
  lane is past the barrier, slot \<open>i\<close> of each tile holds the operand lane \<open>i\<close>
  supplied, whatever the other lanes published and whatever the tiles held before.
\<close>

theorem publish_isolation:
  fixes a b :: "'a::{plus,times} list"
  assumes "length a = 64" "length b = 64" "length c = 64"
    and "length a_tile0 = 64" "length b_tile0 = 64" "length A = 64" "length B = 64"
    and "i < 64"
  shows "mfma_publish (int i) x y (A, B) = Inr (A[i := x], B[i := y])
     \<and> (\<forall>s s' j. lane_step a b i s = Some s' \<and> j \<noteq> i \<longrightarrow>
          a_tile s' ! j = a_tile s ! j \<and> b_tile s' ! j = b_tile s ! j)
     \<and> (\<forall>ts j. j < 64 \<and> past_barrier (lanes (run a b ts (launch a_tile0 b_tile0 c)) ! j) \<longrightarrow>
          a_tile (run a b ts (launch a_tile0 b_tile0 c)) ! i = a ! i
          \<and> b_tile (run a b ts (launch a_tile0 b_tile0 c)) ! i = b ! i)"
proof (intro conjI allI impI)
  show "mfma_publish (int i) x y (A, B) = Inr (A[i := x], B[i := y])"
    using assms(8,6,7) by (rule publish_in_range)
next
  fix s s' :: "'a machine" and j
  assume "lane_step a b i s = Some s' \<and> j \<noteq> i"
  then show "a_tile s' ! j = a_tile s ! j" "b_tile s' ! j = b_tile s ! j"
    using lane_step_tiles_frame[of a b i s s' j] by simp_all
next
  fix ts j
  let ?s = "run a b ts (launch a_tile0 b_tile0 c)"
  assume j: "j < 64 \<and> past_barrier (lanes ?s ! j)"
  have inv: "launch_inv a b c ?s"
    using launch_inv_init[OF assms(4,5,3)] assms(1-3) by (rule run_preserves)
  with j have "phase ?s = 1" using inv_past_barrier[of a b c ?s j] by blast
  from inv_tiles[OF inv this assms(1,2)]
  show "a_tile ?s ! i = a ! i" "b_tile ?s ! i = b ! i" by simp_all
qed

theorem publish_isolation_witness:
  "mfma_publish 7 (100::int) 200 (zeros, zeros) = Inr (zeros[7 := 100], zeros[7 := 200])
   \<and> past_barrier (lanes (run test_a test_b round_robin (launch zeros zeros test_c)) ! 0)
   \<and> a_tile (run test_a test_b round_robin (launch zeros zeros test_c)) ! 7 = 9
   \<and> b_tile (run test_a test_b round_robin (launch zeros zeros test_c)) ! 7 = 22"
proof -
  have len: "length test_a = 64" "length test_b = 64" "length test_c = 64" "length zeros = 64"
    by (simp_all add: test_a_def test_b_def test_c_def zeros_def)
  note inst = publish_isolation[OF len(1,2,3,4,4,4,4), of 7 100 200]
  have fin: "all_exited (run test_a test_b round_robin (launch zeros zeros test_c))"
    using len by (intro round_robin_exits)
  have "launch_inv test_a test_b test_c (run test_a test_b round_robin (launch zeros zeros test_c))"
    using launch_inv_init[OF len(4,4,3)] len(1-3) by (rule run_preserves)
  then have "length (lanes (run test_a test_b round_robin (launch zeros zeros test_c))) = 64"
    by (simp add: launch_inv_def shape_ok_def)
  with fin have past: "past_barrier (lanes (run test_a test_b round_robin (launch zeros zeros test_c)) ! 0)"
    by (simp add: all_exited_def list_all_length)
  have "test_a ! 7 = 9" "test_b ! 7 = 22"
    by (simp_all add: test_a_def test_b_def)
  with inst[THEN conjunct2, THEN conjunct2, rule_format, of 0 round_robin] past
  have "a_tile (run test_a test_b round_robin (launch zeros zeros test_c)) ! 7 = 9"
    "b_tile (run test_a test_b round_robin (launch zeros zeros test_c)) ! 7 = 22"
    by simp_all
  with inst[THEN conjunct1] past show ?thesis by simp
qed

text \<open>
  Claim C6. With the arrays \<^verbatim>\<open>a\<close>, \<^verbatim>\<open>b\<close> and the initial \<^verbatim>\<open>c\<close> fixed, and lane \<open>i\<close>
  running as thread \<open>i\<close>, two launches that have run to the end leave the same
  \<^verbatim>\<open>c\<close>, whichever way the lanes interleaved in each and whatever the tiles held
  before each.
\<close>

theorem launch_deterministic:
  fixes a b :: "'a::{plus,times} list"
  assumes "length a = 64" "length b = 64" "length c = 64"
    and "length a_tile1 = 64" "length b_tile1 = 64" "length a_tile2 = 64" "length b_tile2 = 64"
    and "all_exited (run a b ts1 (launch a_tile1 b_tile1 c))"
    and "all_exited (run a b ts2 (launch a_tile2 b_tile2 c))"
  shows "c_mem (run a b ts1 (launch a_tile1 b_tile1 c)) = c_mem (run a b ts2 (launch a_tile2 b_tile2 c))"
  using launch_result[OF assms(1-3) assms(4,5) assms(8)]
    launch_result[OF assms(1-3) assms(6,7) assms(9)]
  by simp

theorem launch_deterministic_witness:
  "all_exited (run test_a test_b round_robin (launch zeros zeros test_c))
   \<and> all_exited (run test_a test_b one_by_one (launch test_b test_a test_c))
   \<and> round_robin \<noteq> one_by_one
   \<and> c_mem (run test_a test_b round_robin (launch zeros zeros test_c))
       = c_mem (run test_a test_b one_by_one (launch test_b test_a test_c))"
proof -
  have len: "length test_a = 64" "length test_b = 64" "length test_c = 64" "length zeros = 64"
    by (simp_all add: test_a_def test_b_def test_c_def zeros_def)
  have fin1: "all_exited (run test_a test_b round_robin (launch zeros zeros test_c))"
    using len by (intro round_robin_exits)
  have fin2: "all_exited (run test_a test_b one_by_one (launch test_b test_a test_c))"
    using one_by_one_run by (simp add: finished_with_def)
  have "hd round_robin \<noteq> hd one_by_one"
    by code_simp
  then have ne: "round_robin \<noteq> one_by_one" by auto
  from launch_deterministic[OF len(1-3) len(4,4) len(2,1) fin1 fin2] fin1 fin2 ne
  show ?thesis by simp
qed

text \<open>
  Claim C7, as amended. \<^verbatim>\<open>cpu_mfma_f32_16x16x4f32\<close> fails its assertion exactly
  when the lane id is 64 or more. The assertion of line 31 is
  \<^verbatim>\<open>tid < threads_per_subgroup\<close> and has no lower bound: a negative lane id passes
  it (and then indexes the tiles out of bounds). For \<open>0 \<le> tid < 64\<close> it never
  fails. The assertion is taken as compiled in, as with the command of line 12.
\<close>

theorem assertion_fails_iff:
  "(mfma_publish tid x y tiles = Inl Assertion_failed \<longleftrightarrow> 64 \<le> tid)
   \<and> (mfma_assert tid = Inl Assertion_failed \<longleftrightarrow> 64 \<le> tid)
   \<and> (mfma_assert tid = Inr () \<longleftrightarrow> tid < 64)"
  using publish_assert_iff[of tid x y tiles]
  by (simp add: mfma_assert_def threads_per_subgroup_def)

theorem assertion_fails_iff_witness:
  "mfma_publish 64 (1::int) 1 (zeros, zeros) = Inl Assertion_failed
   \<and> mfma_assert 63 = Inr ()
   \<and> mfma_assert (- 5) \<noteq> Inl Assertion_failed"
  using assertion_fails_iff[of 64 "1::int" 1 "(zeros, zeros)"]
    assertion_fails_iff[of 63 "1::int" 1 "(zeros, zeros)"]
    assertion_fails_iff[of "- 5" "1::int" 1 "(zeros, zeros)"]
  by simp

text \<open>
  The claim as first stated, that a negative lane id fails the assertion, is
  false: lane id \<open>-1\<close> is outside \<open>[0, 64)\<close>, the assertion passes, and the write
  of line 38 is out of bounds.
\<close>

theorem assertion_negative_counterexample:
  "((- 1 :: int) < 0 \<or> 64 \<le> (- 1 :: int))
   \<and> mfma_assert (- 1) = Inr ()
   \<and> mfma_publish (- 1) (1::int) 1 (zeros, zeros) = Inl Out_of_bounds"
  by (simp add: mfma_assert_def mfma_publish_def store_def threads_per_subgroup_def zeros_def)

text \<open>
  Claim C8. One launch of the kernel with all 64 lanes live runs to the end
  (whatever has been scheduled so far, the round robin finishes it). Lane \<open>i\<close>
  enters \<^verbatim>\<open>cpu_mfma_f32_16x16x4f32\<close> with \<open>a[i]\<close>, \<open>b[i]\<close> and \<open>c[i]\<close>, and no step
  of lane \<open>i\<close> depends on another element of \<^verbatim>\<open>a\<close> or \<^verbatim>\<open>b\<close>. However the lanes
  interleave, at the end \<open>c[i]\<close> holds what lines 44 to 51 return for lane \<open>i\<close> on
  tiles equal to \<^verbatim>\<open>a\<close> and \<^verbatim>\<open>b\<close>, so that \<^verbatim>\<open>c\<close> as a matrix is the reference
  16x16x4 multiply-accumulate of \<open>A\<close> and \<open>B\<close> onto \<open>C\<close>.
\<close>

theorem kernel_launch_is_one_mfma:
  fixes a b :: "'a::{plus,times} list"
  assumes "length a = 64" "length b = 64" "length c = 64"
    and "length a_tile0 = 64" "length b_tile0 = 64"
  shows "(\<forall>ts. all_exited (run a b (ts @ round_robin) (launch a_tile0 b_tile0 c)))
     \<and> (\<forall>i<64. lanes (pick a b i (launch a_tile0 b_tile0 c)) ! i = At_assert (a ! i) (b ! i) (c ! i))
     \<and> (\<forall>i j v w s. j \<noteq> i \<longrightarrow> lane_step (a[j := v]) (b[j := w]) i s = lane_step a b i s)
     \<and> (\<forall>ts. all_exited (run a b ts (launch a_tile0 b_tile0 c)) \<longrightarrow>
          (\<forall>i<64. mfma_accumulate (int i) a b (c ! i)
                     = Inr (c_mem (run a b ts (launch a_tile0 b_tile0 c)) ! i))
          \<and> (\<forall>r<16. \<forall>n<16.
                C_mat (c_mem (run a b ts (launch a_tile0 b_tile0 c))) r n = mma_ref a b c r n))"
proof (intro conjI allI impI)
  fix ts
  show "all_exited (run a b (ts @ round_robin) (launch a_tile0 b_tile0 c))"
    using assms by (rule launch_completes)
next
  fix i :: nat
  assume "i < 64"
  with assms(1-3) show "lanes (pick a b i (launch a_tile0 b_tile0 c)) ! i = At_assert (a ! i) (b ! i) (c ! i)"
    by (simp add: pick_def lane_step_def launch_def threads_per_subgroup_def load_nat set_lane_def
        list_ex_iff)
next
  fix i j :: nat and v w :: 'a and s :: "'a machine"
  assume "j \<noteq> i"
  then show "lane_step (a[j := v]) (b[j := w]) i s = lane_step a b i s"
    by (rule lane_step_reads_own)
next
  fix ts and i :: nat
  assume fin: "all_exited (run a b ts (launch a_tile0 b_tile0 c))" and i: "i < 64"
  show "mfma_accumulate (int i) a b (c ! i) = Inr (c_mem (run a b ts (launch a_tile0 b_tile0 c)) ! i)"
    using launch_result[OF assms fin] accumulate_ref[OF assms(1-3) i] i by simp
next
  fix ts and r n :: nat
  assume fin: "all_exited (run a b ts (launch a_tile0 b_tile0 c))" and "r < 16" "n < 16"
  then show "C_mat (c_mem (run a b ts (launch a_tile0 b_tile0 c))) r n = mma_ref a b c r n"
    using launch_result[OF assms fin] by (simp add: ref_frags_matrix)
qed

theorem kernel_launch_is_one_mfma_witness:
  "all_exited (run test_a test_b round_robin (launch zeros zeros test_c))
   \<and> lanes (pick test_a test_b 17 (launch zeros zeros test_c)) ! 17 = At_assert 19 52 (Floatx4 17 1 2 3)
   \<and> c_mem (run test_a test_b round_robin (launch zeros zeros test_c)) ! 17
       = Floatx4 12977 13265 13570 13875
   \<and> C_mat (c_mem (run test_a test_b round_robin (launch zeros zeros test_c))) 5 1 = 13265"
proof -
  have len: "length test_a = 64" "length test_b = 64" "length test_c = 64" "length zeros = 64"
    by (simp_all add: test_a_def test_b_def test_c_def zeros_def)
  note inst = kernel_launch_is_one_mfma[OF len(1-3) len(4,4)]
  from inst[THEN conjunct1, rule_format, of "[]"]
  have fin: "all_exited (run test_a test_b round_robin (launch zeros zeros test_c))"
    by simp
  from inst[THEN conjunct2, THEN conjunct1, rule_format, of 17]
  have "lanes (pick test_a test_b 17 (launch zeros zeros test_c)) ! 17
      = At_assert (test_a ! 17) (test_b ! 17) (test_c ! 17)"
    by simp
  then have entry: "lanes (pick test_a test_b 17 (launch zeros zeros test_c)) ! 17
      = At_assert 19 52 (Floatx4 17 1 2 3)"
    by (simp add: test_a_def test_b_def test_c_def)
  note at_end = inst[THEN conjunct2, THEN conjunct2, THEN conjunct2, rule_format, OF fin]
  from at_end[THEN conjunct1, rule_format, of 17]
  have "Inr (c_mem (run test_a test_b round_robin (launch zeros zeros test_c)) ! 17)
      = mfma_accumulate 17 test_a test_b (test_c ! 17)"
    by simp
  also have "mfma_accumulate 17 test_a test_b (test_c ! 17) = Inr (Floatx4 12977 13265 13570 13875)"
    by code_simp
  finally have frag: "c_mem (run test_a test_b round_robin (launch zeros zeros test_c)) ! 17
      = Floatx4 12977 13265 13570 13875"
    by simp
  from at_end[THEN conjunct2, rule_format, of 5 1]
  have "C_mat (c_mem (run test_a test_b round_robin (launch zeros zeros test_c))) 5 1
      = mma_ref test_a test_b test_c 5 1"
    by simp
  also have "mma_ref test_a test_b test_c 5 1 = 13265"
    by code_simp
  finally show ?thesis using fin entry frag by simp
qed

text \<open>
  Claim C9. For a lane id \<open>t\<close> in \<open>[0, 64)\<close>, where \<open>m = 4 * (t / 16)\<close> and
  \<open>n = t % 16\<close>, every index the loop nest forms, \<open>16*k + m + p\<close> into the A tile
  and \<open>16*k + n\<close> into the B tile for \<open>k\<close> and \<open>p\<close> in \<open>0..4\<close>, lies in \<open>[0, 64)\<close>;
  on tiles of 64 elements the loop nest returns a fragment and no access is out of
  bounds; and in no state that a launch on arrays of 64 elements can reach has a
  lane been stopped by an access out of bounds (or by the assertion).
\<close>

theorem tile_indices_in_bounds:
  fixes A_tile B_tile a b :: "'a::{plus,times} list"
  assumes "0 \<le> t" "t < 64"
  shows "lane_m t = 4 * (t div 16) \<and> lane_n t = t mod 16
     \<and> (\<forall>k p. 0 \<le> k \<and> k < 4 \<and> 0 \<le> p \<and> p < 4 \<longrightarrow>
          0 \<le> 16 * k + lane_m t + p \<and> 16 * k + lane_m t + p < 64
          \<and> 0 \<le> 16 * k + lane_n t \<and> 16 * k + lane_n t < 64)
     \<and> (length A_tile = 64 \<and> length B_tile = 64 \<longrightarrow>
          (\<exists>c'. mfma_accumulate t A_tile B_tile c = Inr c'))
     \<and> (length a = 64 \<and> length b = 64 \<and> length c_arr = 64
          \<and> length a_tile0 = 64 \<and> length b_tile0 = 64 \<longrightarrow>
          (\<forall>ts. \<not> list_ex is_aborted (lanes (run a b ts (launch a_tile0 b_tile0 c_arr)))))"
proof (intro conjI allI impI)
  show "lane_m t = 4 * (t div 16)" "lane_n t = t mod 16"
    using assms by (simp_all add: lane_m_def lane_n_def sdiv_nonneg smod_nonneg)
next
  fix k p :: int
  assume kp: "0 \<le> k \<and> k < 4 \<and> 0 \<le> p \<and> p < 4"
  from lane_m_range[OF assms] have m: "0 \<le> lane_m t" "lane_m t \<le> 12" by auto
  note n = lane_n_range[OF assms]
  from kp m show "0 \<le> 16 * k + lane_m t + p" "16 * k + lane_m t + p < 64" by simp_all
  from kp n show "0 \<le> 16 * k + lane_n t" "16 * k + lane_n t < 64" by simp_all
next
  assume "length A_tile = 64 \<and> length B_tile = 64"
  then show "\<exists>c'. mfma_accumulate t A_tile B_tile c = Inr c'"
    using accumulate_returns[of A_tile B_tile t c] assms by blast
next
  fix ts
  assume len: "length a = 64 \<and> length b = 64 \<and> length c_arr = 64
    \<and> length a_tile0 = 64 \<and> length b_tile0 = 64"
  then have "launch_inv a b c_arr (launch a_tile0 b_tile0 c_arr)"
    by (intro launch_inv_init) simp_all
  with len have "launch_inv a b c_arr (run a b ts (launch a_tile0 b_tile0 c_arr))"
    by (intro run_preserves) simp_all
  then show "\<not> list_ex is_aborted (lanes (run a b ts (launch a_tile0 b_tile0 c_arr)))"
    by (rule inv_not_aborted)
qed

theorem tile_indices_in_bounds_witness:
  "(0::int) \<le> 63 \<and> (63::int) < 64
   \<and> 16 * 3 + lane_m 63 + 3 = 63 \<and> 16 * 3 + lane_n 63 = 63
   \<and> (\<exists>c'. mfma_accumulate 63 zeros zeros (Floatx4 1 2 3 4) = Inr c')
   \<and> \<not> list_ex is_aborted (lanes (run test_a test_b one_by_one (launch zeros zeros test_c)))"
proof -
  have len: "length zeros = 64" "length test_a = 64" "length test_b = 64" "length test_c = 64"
    by (simp_all add: zeros_def test_a_def test_b_def test_c_def)
  from tile_indices_in_bounds[of 63 zeros zeros "Floatx4 1 2 3 4" test_a test_b test_c zeros zeros] len
  show ?thesis by simp
qed

text \<open>
  Claim C10. For distinct lane ids \<open>i\<close> and \<open>j\<close>, no step of lane \<open>i\<close> changes
  \<open>c[j]\<close> or the length of \<^verbatim>\<open>c\<close>; no step of lane \<open>i\<close> depends on \<open>c[j]\<close>: with any
  other value there, the step is enabled or not as before and does the same,
  leaving that value in place; and the step of lane \<open>i\<close> that ends the kernel
  stores the returned fragment in \<open>c[i]\<close>. In a launch, which can always run to
  the end, lane \<open>i\<close> takes that step: every schedule after which lane \<open>i\<close> is at
  the end splits at a pick of lane \<open>i\<close> before which \<open>c[i]\<close> still has its
  initial value and lane \<open>i\<close> holds the result \<open>f\<close> of the loop nest, by which \<open>f\<close>
  is stored in \<open>c[i]\<close>, and after which \<open>c[i]\<close> stays \<open>f\<close>. So element \<open>i\<close> of
  \<^verbatim>\<open>c\<close> is written by lane \<open>i\<close> and by no other.
\<close>

theorem output_ownership:
  fixes a b :: "'a::{plus,times} list"
  assumes "i \<noteq> j"
  shows "(\<forall>s'. lane_step a b i s = Some s' \<longrightarrow>
            c_mem s' ! j = c_mem s ! j \<and> length (c_mem s') = length (c_mem s))
     \<and> lane_step a b i (s\<lparr>c_mem := (c_mem s)[j := v]\<rparr>)
         = map_option (\<lambda>s'. s'\<lparr>c_mem := (c_mem s')[j := v]\<rparr>) (lane_step a b i s)
     \<and> (i < length (lanes s) \<and> i < length (c_mem s) \<and> \<not> list_ex is_aborted (lanes s)
          \<and> lanes s ! i = At_return f \<longrightarrow>
            (\<exists>s'. lane_step a b i s = Some s' \<and> c_mem s' = (c_mem s)[i := f]))
     \<and> (i < 64 \<and> length a = 64 \<and> length b = 64 \<and> length c = 64
          \<and> length a_tile0 = 64 \<and> length b_tile0 = 64 \<longrightarrow>
            (\<forall>ts. all_exited (run a b (ts @ round_robin) (launch a_tile0 b_tile0 c)))
            \<and> (\<forall>ts. lanes (run a b ts (launch a_tile0 b_tile0 c)) ! i = Exited \<longrightarrow>
                  (\<exists>ts1 ts2 g.
                      ts = ts1 @ i # ts2
                      \<and> lanes (run a b ts1 (launch a_tile0 b_tile0 c)) ! i = At_return g
                      \<and> mfma_accumulate (int i) a b (c ! i) = Inr g
                      \<and> c_mem (run a b ts1 (launch a_tile0 b_tile0 c)) ! i = c ! i
                      \<and> c_mem (run a b (ts1 @ [i]) (launch a_tile0 b_tile0 c))
                          = (c_mem (run a b ts1 (launch a_tile0 b_tile0 c)))[i := g]
                      \<and> c_mem (run a b ts (launch a_tile0 b_tile0 c)) ! i = g)))"
proof (intro conjI allI impI)
  fix s'
  assume "lane_step a b i s = Some s'"
  with assms show "c_mem s' ! j = c_mem s ! j" "length (c_mem s') = length (c_mem s)"
    using lane_step_c_frame[of a b i s s' j] by simp_all
next
  show "lane_step a b i (s\<lparr>c_mem := (c_mem s)[j := v]\<rparr>)
      = map_option (\<lambda>s'. s'\<lparr>c_mem := (c_mem s')[j := v]\<rparr>) (lane_step a b i s)"
    using assms by (rule lane_step_c_blind)
next
  assume "i < length (lanes s) \<and> i < length (c_mem s) \<and> \<not> list_ex is_aborted (lanes s)
    \<and> lanes s ! i = At_return f"
  then show "\<exists>s'. lane_step a b i s = Some s' \<and> c_mem s' = (c_mem s)[i := f]"
    by (simp add: lane_step_def store_nat set_lane_def)
next
  fix ts
  assume "i < 64 \<and> length a = 64 \<and> length b = 64 \<and> length c = 64
    \<and> length a_tile0 = 64 \<and> length b_tile0 = 64"
  then show "all_exited (run a b (ts @ round_robin) (launch a_tile0 b_tile0 c))"
    by (intro launch_completes) simp_all
next
  fix ts
  let ?L = "launch a_tile0 b_tile0 c"
  assume h: "i < 64 \<and> length a = 64 \<and> length b = 64 \<and> length c = 64
    \<and> length a_tile0 = 64 \<and> length b_tile0 = 64"
    and ex: "lanes (run a b ts ?L) ! i = Exited"
  from h have i: "i < length (lanes ?L)" and start: "lanes ?L ! i \<noteq> Exited"
    by (simp_all add: launch_def threads_per_subgroup_def)
  from write_step_exists[OF start i ex] obtain ts1 ts2 g where
    *: "ts = ts1 @ i # ts2" "lanes (run a b ts1 ?L) ! i = At_return g"
    "c_mem (run a b (ts1 @ [i]) ?L) = (c_mem (run a b ts1 ?L))[i := g]"
    "c_mem (run a b ts ?L) ! i = g"
    by blast
  from h have "launch_inv a b c ?L" by (intro launch_inv_init) simp_all
  with h have "launch_inv a b c (run a b ts1 ?L)" by (intro run_preserves) simp_all
  with h *(2) have res: "mfma_accumulate (int i) a b (c ! i) = Inr g"
    by (auto simp: launch_inv_def lanes_ok_def)
  from *(2) have "lanes (run a b ts1 ?L) ! i \<noteq> Exited" by simp
  from unwritten_before_exit[OF this i] have "c_mem (run a b ts1 ?L) ! i = c ! i"
    by (simp add: launch_def)
  with * res show "\<exists>ts1 ts2 g.
      ts = ts1 @ i # ts2
      \<and> lanes (run a b ts1 ?L) ! i = At_return g
      \<and> mfma_accumulate (int i) a b (c ! i) = Inr g
      \<and> c_mem (run a b ts1 ?L) ! i = c ! i
      \<and> c_mem (run a b (ts1 @ [i]) ?L) = (c_mem (run a b ts1 ?L))[i := g]
      \<and> c_mem (run a b ts ?L) ! i = g"
    by blast
qed

text \<open>
  In the lane-by-lane schedule lane 17 takes the step: the schedule splits at a
  pick of lane 17 that stores \<open>{12977, 13265, 13570, 13875}\<close> over \<open>{17, 1, 2, 3}\<close>.
\<close>

theorem output_ownership_witness:
  "(17::nat) \<noteq> 4
   \<and> lane_step test_a test_b 17 ((launch test_b test_a test_c)\<lparr>c_mem := test_c[4 := Floatx4 9 9 9 9]\<rparr>)
       = map_option (\<lambda>s'. s'\<lparr>c_mem := (c_mem s')[4 := Floatx4 9 9 9 9]\<rparr>)
           (lane_step test_a test_b 17 (launch test_b test_a test_c))
   \<and> lane_step test_a test_b 17 (launch test_b test_a test_c) \<noteq> None
   \<and> lanes (run test_a test_b one_by_one (launch test_b test_a test_c)) ! 17 = Exited
   \<and> (\<exists>ts1 ts2.
         one_by_one = ts1 @ 17 # ts2
         \<and> lanes (run test_a test_b ts1 (launch test_b test_a test_c)) ! 17
             = At_return (Floatx4 12977 13265 13570 13875)
         \<and> c_mem (run test_a test_b ts1 (launch test_b test_a test_c)) ! 17 = Floatx4 17 1 2 3
         \<and> c_mem (run test_a test_b (ts1 @ [17]) (launch test_b test_a test_c))
             = (c_mem (run test_a test_b ts1 (launch test_b test_a test_c)))
                 [17 := Floatx4 12977 13265 13570 13875])"
proof -
  let ?L = "launch test_b test_a test_c"
  have len: "length test_a = 64" "length test_b = 64" "length test_c = 64"
    by (simp_all add: test_a_def test_b_def test_c_def)
  note inst = output_ownership[of 17 4 test_a test_b ?L "Floatx4 9 9 9 9" _ test_c test_b test_a]
  have ne: "(17::nat) \<noteq> 4" by simp
  have c0: "c_mem ?L = test_c" by (simp add: launch_def)
  from inst[OF ne, THEN conjunct2, THEN conjunct1] c0
  have blind: "lane_step test_a test_b 17 (?L\<lparr>c_mem := test_c[4 := Floatx4 9 9 9 9]\<rparr>)
      = map_option (\<lambda>s'. s'\<lparr>c_mem := (c_mem s')[4 := Floatx4 9 9 9 9]\<rparr>)
          (lane_step test_a test_b 17 ?L)"
    by simp
  from one_by_one_run have fin: "all_exited (run test_a test_b one_by_one ?L)"
    and val: "c_mem (run test_a test_b one_by_one ?L) ! 17 = Floatx4 12977 13265 13570 13875"
    by (simp_all add: finished_with_def)
  have "length (lanes (run test_a test_b one_by_one ?L)) = 64"
    by (simp add: run_length launch_def threads_per_subgroup_def)
  with fin have ex: "lanes (run test_a test_b one_by_one ?L) ! 17 = Exited"
    by (simp add: all_exited_def list_all_length)
  have "(17::nat) < 64 \<and> length test_a = 64 \<and> length test_b = 64 \<and> length test_c = 64
      \<and> length test_b = 64 \<and> length test_a = 64"
    using len by simp
  from inst[OF ne, THEN conjunct2, THEN conjunct2, THEN conjunct2, rule_format, OF this,
      THEN conjunct2, rule_format, OF ex]
  obtain ts1 ts2 g where
    *: "one_by_one = ts1 @ 17 # ts2" "lanes (run test_a test_b ts1 ?L) ! 17 = At_return g"
    "c_mem (run test_a test_b ts1 ?L) ! 17 = test_c ! 17"
    "c_mem (run test_a test_b (ts1 @ [17]) ?L) = (c_mem (run test_a test_b ts1 ?L))[17 := g]"
    "c_mem (run test_a test_b one_by_one ?L) ! 17 = g"
    by blast
  from *(5) val have g: "g = Floatx4 12977 13265 13570 13875" by simp
  have "test_c ! 17 = Floatx4 17 1 2 3" by (simp add: test_c_def)
  with * g have "\<exists>ts1 ts2.
      one_by_one = ts1 @ 17 # ts2
      \<and> lanes (run test_a test_b ts1 ?L) ! 17 = At_return (Floatx4 12977 13265 13570 13875)
      \<and> c_mem (run test_a test_b ts1 ?L) ! 17 = Floatx4 17 1 2 3
      \<and> c_mem (run test_a test_b (ts1 @ [17]) ?L)
          = (c_mem (run test_a test_b ts1 ?L))[17 := Floatx4 12977 13265 13570 13875]"
    by auto
  moreover have "lane_step test_a test_b 17 ?L \<noteq> None"
    by (simp add: lane_step_def launch_def threads_per_subgroup_def list_ex_iff)
  ultimately show ?thesis using ne blind ex by simp
qed

end
